theory Spec2Isabelle
  imports Main "HOL-Library.AList" "HOL-Library.Sublist"
begin

section \<open>Text, whitespace and the regular expressions of gettext2sheets.py\<close>

text \<open>
  Python text is modelled as \<open>string\<close>; a \<open>char\<close> stands for a code point below 256.
  A file is read in text mode, so its content is the text after newline translation:
  every line ends in \<open>\<newline>\<close>, except possibly the last one.

  \<open>is_space\<close> is Python's \<open>str.isspace\<close> on these code points; it is the class
  \<open>\s\<close> of \<open>re\<close> on a \<open>str\<close> pattern and what \<open>str.strip()\<close> removes.
\<close>

definition is_space :: "char \<Rightarrow> bool" where
  "is_space c = (of_char c \<in> set [9, 10, 11, 12, 13, 28, 29, 30, 31, 32, 133, 160 :: nat])"

definition strip :: "string \<Rightarrow> string" where
  "strip s = rev (dropWhile is_space (rev (dropWhile is_space s)))"

text \<open>The newline and the double quote.\<close>

abbreviation nl :: char where "nl \<equiv> CHR ''\<newline>''"

abbreviation dq :: char where "dq \<equiv> CHR 0x22"

text \<open>
  The patterns of the program use character classes, greedy repetition of one class,
  groups that do not nest, \<open>^\<close> and \<open>$\<close>. \<open>Dot\<close> is \<open>.\<close> (any character but a
  newline), \<open>Spc\<close> is \<open>\s\<close>, \<open>NonSpc\<close> is \<open>\S\<close>, \<open>Ranges\<close> is a bracket class such
  as \<open>[a-zA-Z-]\<close>.
\<close>

datatype cclass = Chr char | Dot | Spc | NonSpc | Ranges "(char \<times> char) list"

fun in_ranges :: "(char \<times> char) list \<Rightarrow> char \<Rightarrow> bool" where
  "in_ranges [] c = False"
| "in_ranges ((lo, hi) # rs) c =
     (((of_char lo :: nat) \<le> of_char c \<and> (of_char c :: nat) \<le> of_char hi) \<or> in_ranges rs c)"

fun cmatch :: "cclass \<Rightarrow> char \<Rightarrow> bool" where
  "cmatch (Chr d) c = (c = d)"
| "cmatch Dot c = (c \<noteq> CHR ''\<newline>'')"
| "cmatch Spc c = is_space c"
| "cmatch NonSpc c = (\<not> is_space c)"
| "cmatch (Ranges rs) c = in_ranges rs c"

datatype rx = One cclass | Star cclass | Plus cclass | GroupOpen | GroupClose | Bol | Eol

definition lit :: "string \<Rightarrow> rx list" where
  "lit s = map (\<lambda>c. One (Chr c)) s"

text \<open>
  The matcher is the backtracking one of \<open>re\<close>: a greedy repetition first consumes as
  many characters as it can and gives them back one at a time while the rest of the
  pattern fails (\<open>star_greedy\<close>, the rest of the pattern being the continuation \<open>k\<close>).
  \<open>rx_run\<close> matches a pattern at the start of \<open>s\<close>, a suffix of a subject of length
  \<open>n\<close>; it returns the suffixes that remained at every group boundary, in order, and
  last the suffix that remained at the end of the match. \<open>$\<close> holds at the end of the
  subject and just before a newline that ends it.
\<close>

fun star_greedy :: "(char \<Rightarrow> bool) \<Rightarrow> (string \<Rightarrow> 'r option) \<Rightarrow> string \<Rightarrow> 'r option" where
  "star_greedy p k [] = k []"
| "star_greedy p k (x # xs) =
     (if p x then (case star_greedy p k xs of Some r \<Rightarrow> Some r | None \<Rightarrow> k (x # xs))
      else k (x # xs))"

primrec rx_run :: "rx list \<Rightarrow> nat \<Rightarrow> string list \<Rightarrow> string \<Rightarrow> string list option" where
  "rx_run [] n ms s = Some (rev (s # ms))"
| "rx_run (r # rs) n ms s =
     (case r of
        One c \<Rightarrow> (case s of [] \<Rightarrow> None
                   | x # xs \<Rightarrow> if cmatch c x then rx_run rs n ms xs else None)
      | Star c \<Rightarrow> star_greedy (cmatch c) (rx_run rs n ms) s
      | Plus c \<Rightarrow> (case s of [] \<Rightarrow> None
                    | x # xs \<Rightarrow> if cmatch c x then star_greedy (cmatch c) (rx_run rs n ms) xs
                               else None)
      | GroupOpen \<Rightarrow> rx_run rs n (s # ms) s
      | GroupClose \<Rightarrow> rx_run rs n (s # ms) s
      | Bol \<Rightarrow> if length s = n then rx_run rs n ms s else None
      | Eol \<Rightarrow> if s = [] \<or> s = ''\<newline>'' then rx_run rs n ms s else None)"

text \<open>The text between two boundaries, and the groups of a match in order.\<close>

definition between :: "string \<Rightarrow> string \<Rightarrow> string" where
  "between a b = take (length a - length b) a"

fun groups :: "string list \<Rightarrow> string list" where
  "groups (a # b # ms) = between a b # groups ms"
| "groups ms = []"

text \<open>\<open>pattern.match(s)\<close>: the groups of a match at the start of \<open>s\<close>, or None.\<close>

definition re_match :: "rx list \<Rightarrow> string \<Rightarrow> string list option" where
  "re_match p s = map_option groups (rx_run p (length s) [] s)"

text \<open>
  \<open>pattern.search(s)\<close>: the leftmost match. \<open>rx_search\<close> returns the suffix where the
  match starts and the boundaries of \<open>rx_run\<close>.
\<close>

fun rx_search :: "rx list \<Rightarrow> nat \<Rightarrow> string \<Rightarrow> (string \<times> string list) option" where
  "rx_search p n [] = map_option (Pair []) (rx_run p n [] [])"
| "rx_search p n (x # xs) =
     (case rx_run p n [] (x # xs) of
        Some ms \<Rightarrow> Some (x # xs, ms)
      | None \<Rightarrow> rx_search p n xs)"

definition re_search :: "rx list \<Rightarrow> string \<Rightarrow> string list option" where
  "re_search p s = map_option (\<lambda>(st, ms). groups ms) (rx_search p (length s) s)"

text \<open>
  The patterns of the program (lines 23 to 28 of gettext2sheets.py):
  \<^verbatim>\<open>RE_LC_MESSAGES = re.compile(r"/([a-zA-Z-]+)/LC_MESSAGES")\<close>,
  \<^verbatim>\<open>RE_ENTRY_FIELD = re.compile(r'^(msg.*)\s"(.*)"$')\<close>,
  \<^verbatim>\<open>RE_EXTRA_STRING = re.compile(r'^\s*"(.*)"\s*$')\<close>,
  \<^verbatim>\<open>RE_ASSIGN = re.compile(r"{([a-zA-Z_-]+)}")\<close>.
\<close>

definition RE_LC_MESSAGES :: "rx list" where
  "RE_LC_MESSAGES =
     lit ''/'' @ [GroupOpen, Plus (Ranges [(CHR ''a'', CHR ''z''), (CHR ''A'', CHR ''Z''), (CHR ''-'', CHR ''-'')]),
       GroupClose] @ lit ''/LC_MESSAGES''"

definition RE_ENTRY_FIELD :: "rx list" where
  "RE_ENTRY_FIELD =
     [Bol, GroupOpen] @ lit ''msg'' @ [Star Dot, GroupClose, One Spc] @ lit ''\"''
       @ [GroupOpen, Star Dot, GroupClose] @ lit ''\"'' @ [Eol]"

definition RE_EXTRA_STRING :: "rx list" where
  "RE_EXTRA_STRING =
     [Bol, Star Spc] @ lit ''\"'' @ [GroupOpen, Star Dot, GroupClose] @ lit ''\"'' @ [Star Spc, Eol]"

definition RE_ASSIGN :: "rx list" where
  "RE_ASSIGN =
     lit ''{'' @ [GroupOpen, Plus (Ranges [(CHR ''a'', CHR ''z''), (CHR ''A'', CHR ''Z''), (CHR ''_'', CHR ''_''),
       (CHR ''-'', CHR ''-'')]), GroupClose] @ lit ''}''"

section \<open>Range addressing\<close>

text \<open>
  \<^verbatim>\<open>get_column_string(n)\<close> (lines 233 to 240): the \<open>while n > 0\<close> loop appends one letter
  per round, \<open>n, offset = divmod(n-1, 26)\<close>, and the letters are reversed at the end.
  Python integers are unbounded: \<open>int\<close>.
\<close>

function get_column_string_loop :: "int \<Rightarrow> string \<Rightarrow> string" where
  "get_column_string_loop n chars =
     (if n > 0
      then get_column_string_loop ((n - 1) div 26)
             (chars @ [char_of (of_char (CHR ''A'') + (n - 1) mod 26)])
      else chars)"
  by pat_completeness auto
termination
  by (relation "measure (\<lambda>(n, chars). nat n)") auto

definition get_column_string :: "int \<Rightarrow> string" where
  "get_column_string n = rev (get_column_string_loop n [])"

text \<open>
  Modelled from the spec: the reverse index computation (\<open>columnIndexOf\<close>) that the
  specification's round trip names; the program has no such function. A column
  address is read as a bijective base-26 numeral, \<open>A\<close> being the digit one.
\<close>

definition column_index_of :: "string \<Rightarrow> int" where
  "column_index_of addr =
     foldl (\<lambda>acc c. acc * 26 + (of_char c - of_char (CHR ''A'') + 1)) 0 addr"

text \<open>Python's \<open>str\<close> of an integer, as \<open>str.format\<close> writes it.\<close>

function digits :: "nat \<Rightarrow> string" where
  "digits n =
     (if n < 10 then [char_of (of_char (CHR ''0'') + n)]
      else digits (n div 10) @ [char_of (of_char (CHR ''0'') + n mod 10)])"
  by pat_completeness auto
termination
  by (relation "measure id") auto

definition str_int :: "int \<Rightarrow> string" where
  "str_int i = (if i < 0 then CHR ''-'' # digits (nat (- i)) else digits (nat i))"

text \<open>\<^verbatim>\<open>"{0}!{1}{2}:{3}{4}".format(sheet, column_start, row_start, column_end, row_end)\<close>\<close>

definition generate_range_name :: "string \<Rightarrow> int \<Rightarrow> int \<Rightarrow> string \<Rightarrow> string \<Rightarrow> string" where
  "generate_range_name sheet row_start row_end column_start column_end =
     sheet @ ''!'' @ column_start @ str_int row_start @ '':'' @ column_end @ str_int row_end"

section \<open>Errors\<close>

text \<open>
  The program raises \<open>Exception\<close> through \<open>error(...)\<close> at three places
  (\<open>get_locale_by_path\<close>, \<open>get_column_mapping\<close>, \<open>find_msgid_in_file\<close>); they are
  \<open>LocaleUnresolvableError\<close>, \<open>ConfigurationError\<close> and \<open>EntryNotFoundError\<close> here.
  The other constructors are the exceptions Python raises by itself: a missing
  dictionary key, an index outside a list, a subscript of \<open>None\<close>, \<open>next\<close> on an
  exhausted iterator, a group name defined twice in a pattern, a file that does not
  exist, and a failure of the spreadsheet service.
\<close>

datatype error =
    LocaleUnresolvableError | ConfigurationError | EntryNotFoundError
  | KeyError string | IndexError | TypeError | StopIteration | RegexError
  | FileNotFoundError | ServiceError

section \<open>Catalog lines\<close>

text \<open>
  \<open>readline_of s\<close> is what \<open>readline()\<close> returns when \<open>s\<close> is the text from the cursor
  on: the characters up to and including the first newline, the empty string at the
  end of the file. \<open>file_lines\<close> is the iteration \<open>for line in file\<close>.
\<close>

fun readline_of :: "string \<Rightarrow> string" where
  "readline_of [] = []"
| "readline_of (c # cs) = (if c = CHR ''\<newline>'' then [c] else c # readline_of cs)"

function file_lines :: "string \<Rightarrow> string list" where
  "file_lines s =
     (if s = [] then [] else readline_of s # file_lines (drop (length (readline_of s)) s))"
  by pat_completeness auto
termination
proof (relation "measure length")
  fix s :: string
  assume "s \<noteq> []"
  then have "0 < length (readline_of s)" by (cases s) auto
  then show "(drop (length (readline_of s)) s, s) \<in> measure length"
    using \<open>s \<noteq> []\<close> by simp
qed simp

text \<open>
  \<^verbatim>\<open>match = RE_ENTRY_FIELD.match(line)\<close> with \<open>field = match.group(1)\<close> and
  \<open>value = match.group(2)\<close>; \<^verbatim>\<open>RE_EXTRA_STRING.match(line)\<close> is only tested.
\<close>

definition entry_field_match :: "string \<Rightarrow> (string \<times> string) option" where
  "entry_field_match line =
     (case re_match RE_ENTRY_FIELD line of
        Some [field, val] \<Rightarrow> Some (field, val)
      | _ \<Rightarrow> None)"

definition extra_string_match :: "string \<Rightarrow> bool" where
  "extra_string_match line = (re_match RE_EXTRA_STRING line \<noteq> None)"

section \<open>Push: extraction of the entries of a catalog\<close>

text \<open>
  \<^verbatim>\<open>process_po_file(path)\<close> (lines 153 to 185), on the content of the file. An entry is
  a Python \<open>dict\<close>: an association list in insertion order. \<open>field in entry.keys()\<close>
  is membership among the keys, \<open>any(entry.values())\<close> holds when some value is a
  non-empty string, \<open>entry[field] = value\<close> is \<open>AList.update\<close>, and \<open>if entry:\<close>
  holds when the dictionary has a key.
\<close>

type_synonym entry = "(string \<times> string) list"

fun process_po_lines :: "string list \<Rightarrow> entry \<Rightarrow> entry list \<Rightarrow> entry \<times> entry list" where
  "process_po_lines [] entry entries = (entry, entries)"
| "process_po_lines (raw # rest) entry entries =
     (let line = strip raw in
      case entry_field_match line of
        Some (field, val) \<Rightarrow>
          if field \<in> set (map fst entry)
          then process_po_lines rest (AList.update field val [])
                 (if list_ex (\<lambda>(k, v). v \<noteq> []) entry then entries @ [entry] else entries)
          else process_po_lines rest (AList.update field val entry) entries
      | None \<Rightarrow> process_po_lines rest entry entries)"

definition process_po_file :: "string \<Rightarrow> entry list" where
  "process_po_file file_content =
     (case process_po_lines (file_lines file_content) [] [] of
        (entry, entries) \<Rightarrow> if entry \<noteq> [] then entries @ [entry] else entries)"

section \<open>Push: the request body\<close>

text \<open>
  A column descriptor of \<open>config.json\<close> is a dictionary with the optional keys
  \<open>header\<close>, \<open>static\<close> and \<open>fields\<close>; a key that is absent is \<open>None\<close>. The settings
  of a locale hold \<open>sheet\<close>, \<open>row_offset\<close>, \<open>column_offset\<close> and \<open>columns\<close>. The
  metadata of a file (\<open>file_name\<close>, \<open>locale\<close>, \<open>timestamp\<close>) is a dictionary.
\<close>

record column =
  col_header :: "string option"
  col_static :: "string option"
  col_fields :: "string list option"

record locale_settings =
  sheet :: string
  row_offset :: int
  column_offset :: int
  columns :: "column list"

type_synonym metadata = "string \<rightharpoonup> string"

text \<open>
  \<open>pattern.sub(repl, s)\<close> with a function \<open>repl\<close> of the groups: the matches are
  replaced from left to right and do not overlap; a character where no match starts
  is copied. An empty match is replaced too and the scan moves one character on.
\<close>

function re_sub :: "rx list \<Rightarrow> (string list \<Rightarrow> string) \<Rightarrow> nat \<Rightarrow> string \<Rightarrow> string" where
  "re_sub p repl n [] =
     (case rx_run p n [] [] of Some ms \<Rightarrow> repl (groups ms) | None \<Rightarrow> [])"
| "re_sub p repl n (x # xs) =
     (case rx_run p n [] (x # xs) of
        Some ms \<Rightarrow>
          (if length (last ms) < length (x # xs)
           then repl (groups ms) @ re_sub p repl n (last ms)
           else repl (groups ms) @ x # re_sub p repl n xs)
      | None \<Rightarrow> x # re_sub p repl n xs)"
  by pat_completeness auto
termination
  by (relation "measure (\<lambda>(p, repl, n, s). length s)") auto

text \<open>
  \<^verbatim>\<open>replace_assign\<close>: \<open>metadata.get(match_object.group(1), "")\<close>.
  \<^verbatim>\<open>parse_static_text\<close>: \<open>RE_ASSIGN.sub(lambda match: replace_assign(match, metadata), static_text)\<close>.
\<close>

definition replace_assign :: "string list \<Rightarrow> metadata \<Rightarrow> string" where
  "replace_assign match_groups metadata =
     (case match_groups of
        name # _ \<Rightarrow> (case metadata name of Some v \<Rightarrow> v | None \<Rightarrow> [])
      | [] \<Rightarrow> [])"

definition parse_static_text :: "string \<Rightarrow> metadata \<Rightarrow> string" where
  "parse_static_text static_text metadata =
     re_sub RE_ASSIGN (\<lambda>gs. replace_assign gs metadata) (length static_text) static_text"

text \<open>
  \<^verbatim>\<open>populate_column\<close> (lines 214 to 224): a static text that is present and not empty
  wins; otherwise \<open>column["fields"]\<close> is read (a \<open>KeyError\<close> when the key is absent)
  and the first eligible field that the entry has gives the cell, \<open>""\<close> when none.
\<close>

fun first_eligible :: "string list \<Rightarrow> entry \<Rightarrow> string" where
  "first_eligible [] entry = []"
| "first_eligible (field # eligible_fields) entry =
     (case map_of entry field of
        Some v \<Rightarrow> v
      | None \<Rightarrow> first_eligible eligible_fields entry)"

definition populate_column :: "column \<Rightarrow> entry \<Rightarrow> metadata \<Rightarrow> error + string" where
  "populate_column column entry metadata =
     (case col_static column of
        Some (c # cs) \<Rightarrow> Inr (parse_static_text (c # cs) metadata)
      | _ \<Rightarrow>
        (case col_fields column of
           None \<Rightarrow> Inl (KeyError ''fields'')
         | Some eligible_fields \<Rightarrow> Inr (first_eligible eligible_fields entry)))"

text \<open>A list comprehension whose element may raise: the first exception ends it.\<close>

fun map_result :: "('a \<Rightarrow> error + 'b) \<Rightarrow> 'a list \<Rightarrow> error + 'b list" where
  "map_result f [] = Inr []"
| "map_result f (x # xs) =
     (case f x of
        Inl e \<Rightarrow> Inl e
      | Inr y \<Rightarrow> (case map_result f xs of Inl e \<Rightarrow> Inl e | Inr ys \<Rightarrow> Inr (y # ys)))"

definition build_request_entry :: "column list \<Rightarrow> entry \<Rightarrow> metadata \<Rightarrow> error + string list" where
  "build_request_entry cols entry metadata =
     map_result (\<lambda>column. populate_column column entry metadata) cols"

definition column_header :: "column \<Rightarrow> error + string" where
  "column_header column =
     (case col_header column of Some h \<Rightarrow> Inr h | None \<Rightarrow> Inl (KeyError ''header''))"

text \<open>
  \<^verbatim>\<open>build_request_body(settings, entries, row_offset, print_header, metadata)\<close> (lines 187
  to 208). Its parameter \<open>row_offset\<close> is the cumulative offset of the caller, written
  \<open>cur_row_offset\<close> here; \<open>print_header\<close> is a \<open>bool\<close> that Python adds as 0 or 1. The
  result is the range name and the rows under the key \<open>values\<close> of the body.
\<close>

definition build_request_body ::
  "locale_settings \<Rightarrow> entry list \<Rightarrow> int \<Rightarrow> bool \<Rightarrow> metadata
     \<Rightarrow> error + (string \<times> string list list)" where
  "build_request_body settings entries cur_row_offset print_header metadata =
     (let entry_count = int (length entries);
          row_start = 1 + cur_row_offset;
          row_end = row_start + entry_count - 1 + (if print_header then 1 else 0);
          cols = columns settings;
          column_start = get_column_string (1 + column_offset settings);
          column_end = get_column_string (1 + column_offset settings + int (length cols) - 1);
          range_name =
            generate_range_name (sheet settings) row_start row_end column_start column_end
      in case (if print_header then map_result (map_result column_header) [cols] else Inr []) of
           Inl e \<Rightarrow> Inl e
         | Inr headers \<Rightarrow>
             (case map_result (\<lambda>entry. build_request_entry cols entry metadata) entries of
                Inl e \<Rightarrow> Inl e
              | Inr rows \<Rightarrow> Inr (range_name, headers @ rows)))"

section \<open>Locale of a path and column mapping\<close>

text \<open>
  \<^verbatim>\<open>get_locale_by_path\<close> (lines 141 to 151): \<open>RE_LC_MESSAGES.search(path).group(1)\<close>;
  when nothing matches, \<open>.group\<close> of \<open>None\<close> raises, the handler calls \<open>error(...)\<close>
  and the exception leaves the function.
\<close>

definition get_locale_by_path :: "string \<Rightarrow> error + string" where
  "get_locale_by_path path =
     (case re_search RE_LC_MESSAGES path of
        Some (g # _) \<Rightarrow> Inr g
      | _ \<Rightarrow> Inl LocaleUnresolvableError)"

text \<open>
  \<^verbatim>\<open>get_column_mapping(columns)\<close> (lines 333 to 358). The loop runs over
  \<open>enumerate(columns)\<close>; a column with the key \<open>fields\<close> maps each of its fields to its
  index and the loop goes on to the next column (\<open>continue\<close>); any other column with a
  \<open>static\<close> text that contains \<open>{file_name}\<close> sets the reserved key \<open>_file_name\<close>.
\<close>

fun get_column_mapping_loop ::
  "nat \<Rightarrow> column list \<Rightarrow> (string \<rightharpoonup> nat) \<Rightarrow> bool \<Rightarrow> (string \<rightharpoonup> nat) \<times> bool" where
  "get_column_mapping_loop i [] ret found_file_name = (ret, found_file_name)"
| "get_column_mapping_loop i (column # cols) ret found_file_name =
     (case col_fields column of
        Some fs \<Rightarrow>
          get_column_mapping_loop (Suc i) cols
            (foldl (\<lambda>r field. r(field \<mapsto> i)) ret fs) found_file_name
      | None \<Rightarrow>
          (case col_static column of
             Some st \<Rightarrow>
               if sublist ''{file_name}'' st
               then get_column_mapping_loop (Suc i) cols (ret(''_file_name'' \<mapsto> i)) True
               else get_column_mapping_loop (Suc i) cols ret found_file_name
           | None \<Rightarrow> get_column_mapping_loop (Suc i) cols ret found_file_name))"

definition get_column_mapping :: "column list \<Rightarrow> error + (string \<rightharpoonup> nat)" where
  "get_column_mapping cols =
     (case get_column_mapping_loop 0 cols Map.empty False of
        (ret, found_file_name) \<Rightarrow>
          if \<not> found_file_name then Inl ConfigurationError else Inr ret)"

section \<open>The catalog locator\<close>

text \<open>
  A file opened for reading is its content and the position of the cursor, counted in
  characters; \<open>tell()\<close> is \<open>pos\<close>, \<open>seek(p)\<close> sets it, \<open>readline()\<close> returns
  \<open>readline_of\<close> of the text from the cursor on and moves the cursor behind it.
\<close>

record file_handle =
  content :: string
  pos :: nat

text \<open>
  \<^verbatim>\<open>find_msgid_in_file(file_handle, msgid)\<close> (lines 428 to 475). The variables of the
  \<open>while True\<close> loop are the fields of \<open>scan_state\<close>, \<open>position\<close> being the cursor of
  the handle. \<open>find_msgid_step\<close> is one round of the loop: it raises, returns, or
  continues with the next state. After the first end of file the round goes on with
  the empty line, as the source falls through to the match: the empty string matches
  neither pattern and is appended to the fresh buffer.
\<close>

record scan_state =
  wrapped :: bool
  buffered_lines :: "string list"
  pre_entry_position :: nat
  reading_an_entry :: bool
  position :: nat

datatype 'a loop = Continue 'a | Return 'a | Raise error

definition find_msgid_step :: "string \<Rightarrow> string \<Rightarrow> scan_state \<Rightarrow> scan_state loop" where
  "find_msgid_step txt msgid st =
     (let beginning_of_line = position st;
          line = readline_of (drop (position st) txt);
          st1 = st\<lparr>position := position st + length line\<rparr>
      in if line = [] \<and> wrapped st then Raise EntryNotFoundError
         else
           let st2 = (if line = []
                      then st1\<lparr>wrapped := True, buffered_lines := [], pre_entry_position := 0,
                               reading_an_entry := False, position := 0\<rparr>
                      else st1)
           in case entry_field_match line of
                Some (field, val) \<Rightarrow>
                  let st3 = (if \<not> reading_an_entry st2
                             then st2\<lparr>reading_an_entry := True,
                                      pre_entry_position := beginning_of_line\<rparr>
                             else st2)
                  in if field = ''msgid'' \<and> val = msgid
                     then Return (st3\<lparr>position := pre_entry_position st3\<rparr>)
                     else Continue st3
              | None \<Rightarrow>
                  let st3 = (if reading_an_entry st2
                             then st2\<lparr>reading_an_entry := False, buffered_lines := []\<rparr>
                             else st2);
                      st4 = (if \<not> extra_string_match line
                             then st3\<lparr>buffered_lines := buffered_lines st3 @ [line]\<rparr>
                             else st3)
                  in Continue st4)"

text \<open>The loop ends: what is left of the file shrinks, and the file is rescanned once.\<close>

definition scan_measure :: "string \<Rightarrow> scan_state \<Rightarrow> nat" where
  "scan_measure txt st =
     (if wrapped st then 0 else length txt + 1) + (length txt - position st)"

lemma readline_of_length: "length (readline_of s) \<le> length s"
  by (induction s) auto

lemma readline_of_empty: "readline_of s = [] \<longleftrightarrow> s = []"
  by (cases s) auto

lemma find_msgid_step_Continue:
  assumes "find_msgid_step txt msgid st = Continue st'"
  shows "if readline_of (drop (position st) txt) = []
         then \<not> wrapped st \<and> wrapped st' \<and> position st' = 0
         else wrapped st' = wrapped st
              \<and> position st' = position st + length (readline_of (drop (position st) txt))"
  using assms unfolding find_msgid_step_def Let_def
  by (auto split: option.splits if_splits prod.splits)

lemma find_msgid_step_decreases:
  assumes "find_msgid_step txt msgid st = Continue st'"
  shows "scan_measure txt st' < scan_measure txt st"
proof -
  define line where "line = readline_of (drop (position st) txt)"
  have len: "length line \<le> length txt - position st"
    unfolding line_def using readline_of_length[of "drop (position st) txt"] by simp
  show ?thesis
  proof (cases "line = []")
    case True
    then have "\<not> wrapped st \<and> wrapped st' \<and> position st' = 0"
      using find_msgid_step_Continue[OF assms] by (simp add: line_def)
    then show ?thesis by (simp add: scan_measure_def)
  next
    case False
    then have a: "wrapped st' = wrapped st" "position st' = position st + length line"
      using find_msgid_step_Continue[OF assms] by (simp_all add: line_def)
    have "0 < length line" using False by simp
    then have "length txt - (position st + length line) < length txt - position st"
      using len by linarith
    then show ?thesis using a by (simp add: scan_measure_def)
  qed
qed

function find_msgid_loop :: "string \<Rightarrow> string \<Rightarrow> scan_state \<Rightarrow> error + scan_state" where
  "find_msgid_loop txt msgid st =
     (case find_msgid_step txt msgid st of
        Continue st' \<Rightarrow> find_msgid_loop txt msgid st'
      | Return st' \<Rightarrow> Inr st'
      | Raise e \<Rightarrow> Inl e)"
  by pat_completeness auto
termination
  by (relation "measure (\<lambda>(txt, msgid, st). scan_measure txt st)")
     (auto simp: find_msgid_step_decreases)

definition initial_scan :: "nat \<Rightarrow> scan_state" where
  "initial_scan p =
     \<lparr>wrapped = False, buffered_lines = [], pre_entry_position = 0,
      reading_an_entry = False, position = p\<rparr>"

definition find_msgid_in_file :: "file_handle \<Rightarrow> string \<Rightarrow> error + (string list \<times> file_handle)" where
  "find_msgid_in_file file_handle msgid =
     (case find_msgid_loop (content file_handle) msgid (initial_scan (pos file_handle)) of
        Inl e \<Rightarrow> Inl e
      | Inr st \<Rightarrow> Inr (buffered_lines st, file_handle\<lparr>pos := position st\<rparr>))"

text \<open>
  The number of rounds of the loop from a state; every round calls \<open>readline()\<close> once.
\<close>

function find_msgid_rounds :: "string \<Rightarrow> string \<Rightarrow> scan_state \<Rightarrow> nat" where
  "find_msgid_rounds txt msgid st =
     (case find_msgid_step txt msgid st of
        Continue st' \<Rightarrow> Suc (find_msgid_rounds txt msgid st')
      | Return st' \<Rightarrow> 1
      | Raise e \<Rightarrow> 1)"
  by pat_completeness auto
termination
  by (relation "measure (\<lambda>(txt, msgid, st). scan_measure txt st)")
     (auto simp: find_msgid_step_decreases)

section \<open>The catalog rewriter\<close>

text \<open>
  The pair of handles of one catalog: the read handle over the original file, and what
  has been written to the temporary file so far.
  \<^verbatim>\<open>write_buffered_lines_to_file\<close> (lines 477 to 484) writes the lines in order.
\<close>

record handles =
  read_handle :: file_handle
  write_handle :: string

definition write_buffered_lines_to_file :: "string \<Rightarrow> string list \<Rightarrow> string" where
  "write_buffered_lines_to_file written lines = foldl (\<lambda>w line. w @ line) written lines"

text \<open>
  \<^verbatim>\<open>write_updated_entry_to_file(handles, row=None, column_mapping=None)\<close> (lines 486 to
  519). One round of its loop: the line is read; a line that matches neither pattern
  ends the loop after \<open>read_handle.seek(beginning_of_line)\<close>; a field line is written
  as \<^verbatim>\<open>'{0} "{1}"\n'.format(field, row[column_mapping[field]])\<close> when a column mapping
  is given, where the lookup of the field raises \<open>KeyError\<close>, the subscript of a missing
  row \<open>TypeError\<close> and an index outside the row \<open>IndexError\<close>; every other line is
  copied.
\<close>

definition write_entry_step ::
  "string list option \<Rightarrow> (string \<rightharpoonup> nat) option \<Rightarrow> handles \<Rightarrow> handles loop" where
  "write_entry_step row column_mapping h =
     (let beginning_of_line = pos (read_handle h);
          line = readline_of (drop (pos (read_handle h)) (content (read_handle h)));
          h1 = h\<lparr>read_handle := (read_handle h)\<lparr>pos := pos (read_handle h) + length line\<rparr>\<rparr>
      in case entry_field_match line of
           None \<Rightarrow>
             if \<not> extra_string_match line
             then Return (h1\<lparr>read_handle := (read_handle h1)\<lparr>pos := beginning_of_line\<rparr>\<rparr>)
             else Continue (h1\<lparr>write_handle := write_handle h1 @ line\<rparr>)
         | Some (field, val) \<Rightarrow>
             (case column_mapping of
                None \<Rightarrow> Continue (h1\<lparr>write_handle := write_handle h1 @ line\<rparr>)
              | Some cm \<Rightarrow>
                  (case cm field of
                     None \<Rightarrow> Raise (KeyError field)
                   | Some i \<Rightarrow>
                       (case row of
                          None \<Rightarrow> Raise TypeError
                        | Some cells \<Rightarrow>
                            if i < length cells
                            then Continue (h1\<lparr>write_handle :=
                                   write_handle h1 @ field @ '' \"'' @ cells ! i @ ''\"\<newline>''\<rparr>)
                            else Raise IndexError))))"

lemma entry_field_match_empty: "entry_field_match [] = None"
  by (simp add: entry_field_match_def re_match_def RE_ENTRY_FIELD_def lit_def)

lemma extra_string_match_empty: "\<not> extra_string_match []"
  by (simp add: extra_string_match_def re_match_def RE_EXTRA_STRING_def lit_def)

lemma write_entry_step_Continue:
  assumes "write_entry_step row column_mapping h = Continue h'"
  shows "readline_of (drop (pos (read_handle h)) (content (read_handle h))) \<noteq> []
         \<and> content (read_handle h') = content (read_handle h)
         \<and> pos (read_handle h') = pos (read_handle h)
              + length (readline_of (drop (pos (read_handle h)) (content (read_handle h))))"
  using assms unfolding write_entry_step_def Let_def
  by (auto split: option.splits if_splits prod.splits
       simp: entry_field_match_empty extra_string_match_empty)

lemma write_entry_step_decreases:
  assumes "write_entry_step row column_mapping h = Continue h'"
  shows "length (content (read_handle h')) - pos (read_handle h')
         < length (content (read_handle h)) - pos (read_handle h)"
proof -
  define line where "line = readline_of (drop (pos (read_handle h)) (content (read_handle h)))"
  have len: "length line \<le> length (content (read_handle h)) - pos (read_handle h)"
    unfolding line_def
    using readline_of_length[of "drop (pos (read_handle h)) (content (read_handle h))"] by simp
  have a: "line \<noteq> []" "content (read_handle h') = content (read_handle h)"
    "pos (read_handle h') = pos (read_handle h) + length line"
    using write_entry_step_Continue[OF assms] by (simp_all add: line_def)
  have "0 < length line" using a(1) by simp
  then have "length (content (read_handle h)) - (pos (read_handle h) + length line)
      < length (content (read_handle h)) - pos (read_handle h)"
    using len by linarith
  then show ?thesis using a by simp
qed

function write_updated_entry_loop ::
  "string list option \<Rightarrow> (string \<rightharpoonup> nat) option \<Rightarrow> handles \<Rightarrow> error + handles" where
  "write_updated_entry_loop row column_mapping h =
     (case write_entry_step row column_mapping h of
        Continue h' \<Rightarrow> write_updated_entry_loop row column_mapping h'
      | Return h' \<Rightarrow> Inr h'
      | Raise e \<Rightarrow> Inl e)"
  by pat_completeness auto
termination
  by (relation "measure (\<lambda>(row, column_mapping, h).
        length (content (read_handle h)) - pos (read_handle h))")
     (auto simp: write_entry_step_decreases)

definition write_updated_entry_to_file ::
  "handles \<Rightarrow> string list option \<Rightarrow> (string \<rightharpoonup> nat) option \<Rightarrow> error + handles" where
  "write_updated_entry_to_file h row column_mapping =
     write_updated_entry_loop row column_mapping h"

section \<open>Pull: the driver\<close>

text \<open>
  \<^verbatim>\<open>extract_string_assigns(template, string)\<close> (lines 402 to 413) escapes the template,
  turns every escaped assign into a named group \<^verbatim>\<open>(?P<name>.*)\<close> and returns the
  \<open>groupdict()\<close> of the first match that \<open>re.finditer\<close> finds in the string.
  \<open>re.escape\<close> puts a backslash before \<open>{\<close>, \<open>}\<close> and \<open>-\<close> and none before a letter or
  an underscore, so the matches of \<^verbatim>\<open>\\{([a-zA-Z_-]+)\\}\<close> in the escaped template are
  the \<open>{name}\<close> of the template whose name is made of letters and underscores; every
  other character of the template stands for itself. \<open>template_tokens\<close> is that scan
  of the template; a group name that occurs twice is an error of \<open>re\<close>, and no match
  leaves the iterator empty (\<open>StopIteration\<close>).
\<close>

definition RE_TEMPLATE_ASSIGN :: "rx list" where
  "RE_TEMPLATE_ASSIGN =
     lit ''{'' @ [GroupOpen, Plus (Ranges [(CHR ''a'', CHR ''z''), (CHR ''A'', CHR ''Z''), (CHR ''_'', CHR ''_'')]),
       GroupClose] @ lit ''}''"

function template_tokens :: "nat \<Rightarrow> string \<Rightarrow> (string + char) list" where
  "template_tokens n [] = []"
| "template_tokens n (x # xs) =
     (case rx_run RE_TEMPLATE_ASSIGN n [] (x # xs) of
        Some ms \<Rightarrow>
          (if length (last ms) < length (x # xs)
           then Inl (concat (groups ms)) # template_tokens n (last ms)
           else Inr x # template_tokens n xs)
      | None \<Rightarrow> Inr x # template_tokens n xs)"
  by pat_completeness auto
termination
  by (relation "measure (\<lambda>(n, s). length s)") auto

definition reverse_template :: "(string + char) list \<Rightarrow> rx list" where
  "reverse_template tokens =
     concat (map (case_sum (\<lambda>name. [GroupOpen, Star Dot, GroupClose]) (\<lambda>c. [One (Chr c)])) tokens)"

definition group_names :: "(string + char) list \<Rightarrow> string list" where
  "group_names tokens = concat (map (case_sum (\<lambda>name. [name]) (\<lambda>c. [])) tokens)"

definition extract_string_assigns :: "string \<Rightarrow> string \<Rightarrow> error + (string \<times> string) list" where
  "extract_string_assigns template s =
     (let tokens = template_tokens (length template) template;
          names = group_names tokens
      in if \<not> distinct names then Inl RegexError
         else case rx_search (reverse_template tokens) (length s) s of
                None \<Rightarrow> Inl StopIteration
              | Some (start, ms) \<Rightarrow> Inr (zip names (groups ms)))"

text \<open>
  The world of a pull run: the files, by path, and the ranges requested from the
  spreadsheet so far. The service answers a range with the rows under \<open>values\<close> (the
  key may be absent) or fails. A temporary file exists from the moment it is opened
  for writing; what has been written to it reaches the file when the handle is closed.
  The messages printed by \<open>info\<close> and \<open>warn\<close> are left out.
\<close>

record world =
  files :: "string \<rightharpoonup> string"
  requests :: "string list"

type_synonym service = "string \<Rightarrow> error + string list list option"

type_synonym handle_map = "(string \<times> handles) list"

text \<open>\<^verbatim>\<open>open_handle_pair(target_file)\<close> (lines 415 to 426).\<close>

definition open_handle_pair :: "string \<Rightarrow> world \<Rightarrow> (error + handles) \<times> world" where
  "open_handle_pair target_file w =
     (case files w target_file of
        None \<Rightarrow> (Inl FileNotFoundError, w)
      | Some original \<Rightarrow>
          let new_file = target_file @ ''.tmp'';
              w1 = w\<lparr>files := (files w)(new_file \<mapsto> [])\<rparr>;
              hm = \<lparr>read_handle = \<lparr>content = original, pos = 0\<rparr>, write_handle = []\<rparr>
          in case find_msgid_in_file (read_handle hm) [] of
               Inl e \<Rightarrow> (Inl e, w1)
             | Inr (buffered, rh) \<Rightarrow>
                 (case write_updated_entry_to_file
                         (hm\<lparr>read_handle := rh,
                             write_handle := write_buffered_lines_to_file (write_handle hm) buffered\<rparr>)
                         None None of
                    Inl e \<Rightarrow> (Inl e, w1)
                  | Inr hm' \<Rightarrow> (Inr hm', w1)))"

text \<open>
  \<^verbatim>\<open>process_chunk\<close> (lines 369 to 400). \<open>process_row\<close> is the body of its loop for a row
  that is not blank; the result is the exception raised, if any, with the handles and
  the world as they are then.
\<close>

definition process_row ::
  "(string \<rightharpoonup> string) \<Rightarrow> (string \<rightharpoonup> nat) \<Rightarrow> string \<Rightarrow> nat \<Rightarrow> nat \<Rightarrow> string list
     \<Rightarrow> handle_map \<Rightarrow> world \<Rightarrow> error option \<times> handle_map \<times> world" where
  "process_row file_path_map column_mapping file_name_template file_name_column msgid_column row
       file_handle_map w =
     (if \<not> file_name_column < length row then (Some IndexError, file_handle_map, w)
      else case extract_string_assigns file_name_template (row ! file_name_column) of
        Inl e \<Rightarrow> (Some e, file_handle_map, w)
      | Inr assigns \<Rightarrow>
          (case map_of assigns ''file_name'' of
             None \<Rightarrow> (Some (KeyError ''file_name''), file_handle_map, w)
           | Some base_filename \<Rightarrow>
               (case file_path_map base_filename of
                  None \<Rightarrow> (Some (KeyError base_filename), file_handle_map, w)
                | Some target_file \<Rightarrow>
                    (case (case map_of file_handle_map base_filename of
                             Some h \<Rightarrow> (Inr h, w)
                           | None \<Rightarrow> open_handle_pair target_file w) of
                       (Inl e, w1) \<Rightarrow> (Some e, file_handle_map, w1)
                     | (Inr h, w1) \<Rightarrow>
                         let fhm1 = AList.update base_filename h file_handle_map
                         in if \<not> msgid_column < length row then (Some IndexError, fhm1, w1)
                            else case find_msgid_in_file (read_handle h) (row ! msgid_column) of
                                   Inl e \<Rightarrow> (Some e, fhm1, w1)
                                 | Inr (buffered, rh) \<Rightarrow>
                                     (case write_updated_entry_to_file
                                             (h\<lparr>read_handle := rh,
                                                write_handle :=
                                                  write_buffered_lines_to_file (write_handle h) buffered\<rparr>)
                                             (Some row) (Some column_mapping) of
                                        Inl e \<Rightarrow> (Some e, fhm1, w1)
                                      | Inr h' \<Rightarrow>
                                          (None, AList.update base_filename h' fhm1, w1))))))"

fun process_rows ::
  "(string \<rightharpoonup> string) \<Rightarrow> (string \<rightharpoonup> nat) \<Rightarrow> string \<Rightarrow> nat \<Rightarrow> nat \<Rightarrow> string list list
     \<Rightarrow> handle_map \<Rightarrow> world \<Rightarrow> error option \<times> handle_map \<times> world" where
  "process_rows fpm cm tmpl fcol mcol [] fhm w = (None, fhm, w)"
| "process_rows fpm cm tmpl fcol mcol (row # data) fhm w =
     (if \<not> list_ex (\<lambda>cell. cell \<noteq> []) row then process_rows fpm cm tmpl fcol mcol data fhm w
      else case process_row fpm cm tmpl fcol mcol row fhm w of
             (Some e, fhm', w') \<Rightarrow> (Some e, fhm', w')
           | (None, fhm', w') \<Rightarrow> process_rows fpm cm tmpl fcol mcol data fhm' w')"

definition process_chunk ::
  "(string \<rightharpoonup> string) \<Rightarrow> handle_map \<Rightarrow> string list list \<Rightarrow> (string \<rightharpoonup> nat) \<Rightarrow> string
     \<Rightarrow> world \<Rightarrow> error option \<times> handle_map \<times> world" where
  "process_chunk file_path_map file_handle_map data column_mapping file_name_template w =
     (case column_mapping ''_file_name'' of
        None \<Rightarrow> (Some (KeyError ''_file_name''), file_handle_map, w)
      | Some file_name_column \<Rightarrow>
          (case column_mapping ''msgid'' of
             None \<Rightarrow> (Some (KeyError ''msgid''), file_handle_map, w)
           | Some msgid_column \<Rightarrow>
               process_rows file_path_map column_mapping file_name_template file_name_column
                 msgid_column data file_handle_map w))"

text \<open>
  \<^verbatim>\<open>pull_by_locale\<close> (lines 281 to 330). The \<open>while True\<close> loop over the chunks ends
  when the service returns no row; the service decides whether that happens, so the
  loop has fuel and \<open>None\<close> is the run that has not ended within it. \<open>fetch_chunk\<close>
  counts the rows, an absent \<open>values\<close> being zero rows.
\<close>

fun pull_chunks ::
  "nat \<Rightarrow> service \<Rightarrow> string \<Rightarrow> int \<Rightarrow> string \<Rightarrow> string \<Rightarrow> (string \<rightharpoonup> string)
     \<Rightarrow> (string \<rightharpoonup> nat) \<Rightarrow> string \<Rightarrow> int \<Rightarrow> handle_map \<Rightarrow> world
     \<Rightarrow> (error option \<times> handle_map \<times> world) option" where
  "pull_chunks 0 service sh chunk_size cs ce fpm cm tmpl row_start fhm w = None"
| "pull_chunks (Suc fuel) service sh chunk_size cs ce fpm cm tmpl row_start fhm w =
     (let row_end = row_start + chunk_size - 1;
          range_name = generate_range_name sh row_start row_end cs ce;
          w1 = w\<lparr>requests := requests w @ [range_name]\<rparr>
      in case service range_name of
           Inl e \<Rightarrow> Some (Some e, fhm, w1)
         | Inr None \<Rightarrow> Some (None, fhm, w1)
         | Inr (Some data) \<Rightarrow>
             if length data = 0 then Some (None, fhm, w1)
             else case process_chunk fpm fhm data cm tmpl w1 of
                    (Some e, fhm', w') \<Rightarrow> Some (Some e, fhm', w')
                  | (None, fhm', w') \<Rightarrow>
                      pull_chunks fuel service sh chunk_size cs ce fpm cm tmpl (row_end + 1) fhm' w')"

text \<open>
  The closing loop of \<open>pull_by_locale\<close> (lines 315 to 328): the handles are closed,
  the \<open>.old\<close> file is removed when it exists, the original is renamed to \<open>.old\<close> and
  the temporary file to the original.
\<close>

fun promote :: "(string \<rightharpoonup> string) \<Rightarrow> handle_map \<Rightarrow> world \<Rightarrow> error option \<times> world" where
  "promote file_path_map [] w = (None, w)"
| "promote file_path_map ((file_name, h) # rest) w =
     (case file_path_map file_name of
        None \<Rightarrow> (Some (KeyError file_name), w)
      | Some full_path \<Rightarrow>
          let full_path_tmp = full_path @ ''.tmp'';
              full_path_old = full_path @ ''.old'';
              fs1 = (files w)(full_path_tmp \<mapsto> write_handle h);
              fs2 = fs1(full_path_old := None)
          in case fs2 full_path of
               None \<Rightarrow> (Some FileNotFoundError, w\<lparr>files := fs2\<rparr>)
             | Some original \<Rightarrow>
                 let fs3 = fs2(full_path_old \<mapsto> original, full_path := None)
                 in case fs3 full_path_tmp of
                      None \<Rightarrow> (Some FileNotFoundError, w\<lparr>files := fs3\<rparr>)
                    | Some rewritten \<Rightarrow>
                        promote file_path_map rest
                          (w\<lparr>files := fs3(full_path \<mapsto> rewritten, full_path_tmp := None)\<rparr>))"

record config =
  pull_chunk_size :: int
  locales :: "string \<rightharpoonup> locale_settings"

text \<open>
  \<open>pull_rows\<close> is \<open>pull_by_locale\<close> up to the end of its chunk loop, \<open>pull_by_locale\<close>
  goes on with the closing loop when no exception was raised.
\<close>

definition pull_rows ::
  "nat \<Rightarrow> config \<Rightarrow> service \<Rightarrow> (string \<rightharpoonup> string) \<Rightarrow> locale_settings \<Rightarrow> world
     \<Rightarrow> (error option \<times> handle_map \<times> world) option" where
  "pull_rows fuel cfg service file_path_map settings w =
     (let row_start = 1 + row_offset settings + 1;
          cols = columns settings;
          column_start = get_column_string (1 + column_offset settings);
          column_end = get_column_string (1 + column_offset settings + int (length cols) - 1)
      in case get_column_mapping cols of
           Inl e \<Rightarrow> Some (Some e, [], w)
         | Inr column_mapping \<Rightarrow>
             (case column_mapping ''_file_name'' of
                None \<Rightarrow> Some (Some (KeyError ''_file_name''), [], w)
              | Some file_name_column \<Rightarrow>
                  if \<not> file_name_column < length cols then Some (Some IndexError, [], w)
                  else case col_static (cols ! file_name_column) of
                         None \<Rightarrow> Some (Some (KeyError ''static''), [], w)
                       | Some file_name_template \<Rightarrow>
                           pull_chunks fuel service (sheet settings) (pull_chunk_size cfg)
                             column_start column_end file_path_map column_mapping
                             file_name_template row_start [] w))"

definition pull_by_locale ::
  "nat \<Rightarrow> config \<Rightarrow> service \<Rightarrow> (string \<rightharpoonup> string) \<Rightarrow> locale_settings \<Rightarrow> world
     \<Rightarrow> (error option \<times> world) option" where
  "pull_by_locale fuel cfg service file_path_map settings w =
     (case pull_rows fuel cfg service file_path_map settings w of
        None \<Rightarrow> None
      | Some (Some e, file_handle_map, w') \<Rightarrow> Some (Some e, w')
      | Some (None, file_handle_map, w') \<Rightarrow> Some (promote file_path_map file_handle_map w'))"

text \<open>
  \<^verbatim>\<open>handle_pull\<close> (lines 252 to 279). The first loop maps every file to its locale and
  files it under its name (\<open>posix_path.name\<close>, the last component of the path); the
  second pulls locale after locale, in the order in which the locales were met, and
  goes on to the next locale when the configuration has none of that name.
\<close>

definition path_name :: "string \<Rightarrow> string" where
  "path_name p = rev (takeWhile (\<lambda>c. c \<noteq> CHR ''/'') (rev p))"

fun group_by_locale ::
  "string list \<Rightarrow> (string \<times> (string \<rightharpoonup> string)) list
     \<Rightarrow> error + (string \<times> (string \<rightharpoonup> string)) list" where
  "group_by_locale [] locale_file_paths = Inr locale_file_paths"
| "group_by_locale (path_string # file_list) locale_file_paths =
     (case get_locale_by_path path_string of
        Inl e \<Rightarrow> Inl e
      | Inr loc \<Rightarrow>
          let path_map = (case map_of locale_file_paths loc of Some m \<Rightarrow> m | None \<Rightarrow> Map.empty)
          in group_by_locale file_list
               (AList.update loc (path_map(path_name path_string \<mapsto> path_string)) locale_file_paths))"

fun pull_locales ::
  "nat \<Rightarrow> config \<Rightarrow> service \<Rightarrow> (string \<times> (string \<rightharpoonup> string)) list \<Rightarrow> world
     \<Rightarrow> (error option \<times> world) option" where
  "pull_locales fuel cfg service [] w = Some (None, w)"
| "pull_locales fuel cfg service ((loc, path_map) # rest) w =
     (case locales cfg loc of
        None \<Rightarrow> pull_locales fuel cfg service rest w
      | Some settings \<Rightarrow>
          (case pull_by_locale fuel cfg service path_map settings w of
             None \<Rightarrow> None
           | Some (Some e, w') \<Rightarrow> Some (Some e, w')
           | Some (None, w') \<Rightarrow> pull_locales fuel cfg service rest w'))"

definition handle_pull ::
  "nat \<Rightarrow> config \<Rightarrow> service \<Rightarrow> string list \<Rightarrow> world \<Rightarrow> (error option \<times> world) option" where
  "handle_pull fuel cfg service file_list w =
     (case group_by_locale file_list [] of
        Inl e \<Rightarrow> Some (Some e, w)
      | Inr locale_file_paths \<Rightarrow> pull_locales fuel cfg service locale_file_paths w)"

section \<open>Push: the driver\<close>

text \<open>
  \<^verbatim>\<open>handle_push\<close> (lines 105 to 139), as the loop over the files. Its state is the
  dictionary \<open>locale_row_offsets\<close> and the update requests sent so far; the update
  service answers a range and a body with the number of updated rows (0 when the
  answer has no \<open>updatedRows\<close>) or fails. \<open>now\<close> is the reading of the clock.
\<close>

record push_state =
  locale_row_offsets :: "string \<rightharpoonup> int"
  sent :: "(string \<times> string list list) list"

type_synonym update_service = "string \<Rightarrow> string list list \<Rightarrow> error + int"

fun push_files ::
  "config \<Rightarrow> update_service \<Rightarrow> (string \<rightharpoonup> string) \<Rightarrow> string \<Rightarrow> string list \<Rightarrow> push_state
     \<Rightarrow> error option \<times> push_state" where
  "push_files cfg update fs now [] st = (None, st)"
| "push_files cfg update fs now (path_string # file_list) st =
     (case get_locale_by_path path_string of
        Inl e \<Rightarrow> (Some e, st)
      | Inr loc \<Rightarrow>
          (case fs path_string of
             None \<Rightarrow> (Some FileNotFoundError, st)
           | Some file_content \<Rightarrow>
               let file_entries = process_po_file file_content
               in case locales cfg loc of
                    None \<Rightarrow> push_files cfg update fs now file_list st
                  | Some settings \<Rightarrow>
                      let print_header = (locale_row_offsets st loc = None);
                          cur_row_offset =
                            (case locale_row_offsets st loc of
                               Some r \<Rightarrow> r
                             | None \<Rightarrow> row_offset settings);
                          metadata = [''file_name'' \<mapsto> path_name path_string, ''locale'' \<mapsto> loc,
                                      ''timestamp'' \<mapsto> now]
                      in case build_request_body settings file_entries cur_row_offset print_header
                                metadata of
                           Inl e \<Rightarrow> (Some e, st)
                         | Inr (range_str, body) \<Rightarrow>
                             (case update range_str body of
                                Inl e \<Rightarrow> (Some e, st\<lparr>sent := sent st @ [(range_str, body)]\<rparr>)
                              | Inr updated_rows \<Rightarrow>
                                  push_files cfg update fs now file_list
                                    (st\<lparr>locale_row_offsets :=
                                          (locale_row_offsets st)(loc \<mapsto> cur_row_offset + updated_rows),
                                        sent := sent st @ [(range_str, body)]\<rparr>))))"

definition handle_push ::
  "config \<Rightarrow> update_service \<Rightarrow> (string \<rightharpoonup> string) \<Rightarrow> string \<Rightarrow> string list
     \<Rightarrow> error option \<times> push_state" where
  "handle_push cfg update fs now file_list =
     push_files cfg update fs now file_list \<lparr>locale_row_offsets = Map.empty, sent = []\<rparr>"

section \<open>The line grammar as the specification words it\<close>

text \<open>
  The specification gives the entry-field line as \<^verbatim>\<open>^(msg\S*)\s+"(.*)"$\<close>. The
  pattern below follows these words; the program's own pattern is \<open>RE_ENTRY_FIELD\<close>.
\<close>

definition SPEC_ENTRY_FIELD :: "rx list" where
  "SPEC_ENTRY_FIELD =
     [Bol, GroupOpen] @ lit ''msg'' @ [Star NonSpc, GroupClose, Plus Spc] @ lit ''\"''
       @ [GroupOpen, Star Dot, GroupClose] @ lit ''\"'' @ [Eol]"

section \<open>The catalog and the settings of the specification's end-to-end example\<close>

text \<open>
  A catalog with the header entry and two translatable entries, and the settings of a
  locale with \<open>row_offset = 5\<close>, \<open>column_offset = 0\<close> and the two field-backed columns
  \<open>["msgid"]\<close> and \<open>["msgstr"]\<close>.
\<close>

definition example_catalog :: string where
  "example_catalog =
     ''msgid \"\"\<newline>msgstr \"\"\<newline>\"Language: en\"\<newline>\<newline>'' @
     ''#: lib/a.ex:1\<newline>msgid \"hello\"\<newline>msgstr \"ola\"\<newline>\<newline>'' @
     ''#: lib/a.ex:2\<newline>msgid \"bye\"\<newline>msgstr \"tchau\"\<newline>''"

definition example_settings :: locale_settings where
  "example_settings =
     \<lparr>sheet = ''Sheet1'', row_offset = 5, column_offset = 0,
      columns = [\<lparr>col_header = Some ''ID'', col_static = None, col_fields = Some [''msgid'']\<rparr>,
                 \<lparr>col_header = Some ''TEXT'', col_static = None, col_fields = Some [''msgstr'']\<rparr>]\<rparr>"

section \<open>A pull run over two locales\<close>

text \<open>
  Two locales, \<open>en\<close> and \<open>pt\<close>, each with the catalog \<open>a.po\<close>; three columns, the
  third being the file-name column; chunks of two rows. The sheet of \<open>en\<close> has one row
  for the entry \<open>hi\<close>; the sheet of \<open>pt\<close> has one row for an entry \<open>bye\<close> that the
  catalog does not have.
\<close>

definition pull_example_columns :: "column list" where
  "pull_example_columns =
     [\<lparr>col_header = Some ''ID'', col_static = None, col_fields = Some [''msgid'']\<rparr>,
      \<lparr>col_header = Some ''TEXT'', col_static = None, col_fields = Some [''msgstr'']\<rparr>,
      \<lparr>col_header = Some ''FILE'', col_static = Some ''{file_name}'', col_fields = None\<rparr>]"

definition pull_example_settings :: "string \<Rightarrow> locale_settings" where
  "pull_example_settings sh =
     \<lparr>sheet = sh, row_offset = 0, column_offset = 0, columns = pull_example_columns\<rparr>"

definition pull_example_config :: config where
  "pull_example_config =
     \<lparr>pull_chunk_size = 2,
      locales = [''en'' \<mapsto> pull_example_settings ''en'', ''pt'' \<mapsto> pull_example_settings ''pt'']\<rparr>"

definition small_catalog :: string where
  "small_catalog =
     ''msgid \"\"\<newline>msgstr \"\"\<newline>\<newline>msgid \"hi\"\<newline>msgstr \"\"\<newline>''"

definition pull_example_world :: world where
  "pull_example_world =
     \<lparr>files = [''/po/en/LC_MESSAGES/a.po'' \<mapsto> small_catalog,
               ''/po/pt/LC_MESSAGES/a.po'' \<mapsto> small_catalog],
      requests = []\<rparr>"

definition pull_example_service :: service where
  "pull_example_service r =
     (if r = ''en!A2:C3'' then Inr (Some [[''hi'', ''Hi!'', ''a.po'']])
      else if r = ''pt!A2:C3'' then Inr (Some [[''bye'', ''Tchau'', ''a.po'']])
      else Inr None)"

definition pull_example_run :: "(error option \<times> world) option" where
  "pull_example_run =
     handle_pull 5 pull_example_config pull_example_service
       [''/po/en/LC_MESSAGES/a.po'', ''/po/pt/LC_MESSAGES/a.po''] pull_example_world"

text \<open>
  A configuration of one locale whose file-name column is the second one, with the
  template and the fields of the third column left open; \<open>source_example_mapping\<close>
  is its column mapping. The service answers the first range and has no further row.
\<close>

definition source_example_columns :: "string \<Rightarrow> string list \<Rightarrow> column list" where
  "source_example_columns tmpl fs =
     [\<lparr>col_header = Some ''ID'', col_static = None, col_fields = Some [''msgid'']\<rparr>,
      \<lparr>col_header = Some ''FILE'', col_static = Some tmpl, col_fields = None\<rparr>,
      \<lparr>col_header = Some ''TEXT'', col_static = None, col_fields = Some fs\<rparr>]"

definition source_example_settings :: "string \<Rightarrow> string list \<Rightarrow> locale_settings" where
  "source_example_settings tmpl fs =
     \<lparr>sheet = ''pt'', row_offset = 0, column_offset = 0, columns = source_example_columns tmpl fs\<rparr>"

definition source_example_config :: "string \<Rightarrow> string list \<Rightarrow> config" where
  "source_example_config tmpl fs =
     \<lparr>pull_chunk_size = 2, locales = [''pt'' \<mapsto> source_example_settings tmpl fs]\<rparr>"

definition source_example_service :: "(error + string list list option) \<Rightarrow> service" where
  "source_example_service answer r = (if r = ''pt!A2:C3'' then answer else Inr None)"

definition source_example_run ::
  "string \<Rightarrow> string list \<Rightarrow> string \<Rightarrow> (error + string list list option) \<Rightarrow> (error option \<times> world) option" where
  "source_example_run tmpl fs target answer =
     pull_by_locale 5 (source_example_config tmpl fs) (source_example_service answer)
       [''a.po'' \<mapsto> target] (source_example_settings tmpl fs) pull_example_world"

definition source_example_mapping :: "string list \<Rightarrow> string \<rightharpoonup> nat" where
  "source_example_mapping fs = foldl (\<lambda>r field. r(field \<mapsto> 2)) [''msgid'' \<mapsto> 0, ''_file_name'' \<mapsto> 1] fs"

section \<open>Properties of range addressing\<close>

declare get_column_string_loop.simps [simp del]
declare digits.simps [simp del]

lemma get_column_string_loop_acc:
  "get_column_string_loop n chars = chars @ get_column_string_loop n []"
proof (induction "nat n" arbitrary: n chars rule: less_induct)
  case less
  show ?case
  proof (cases "n > 0")
    case True
    define c where "c = char_of (of_char (CHR ''A'') + (n - 1) mod 26)"
    have lt: "nat ((n - 1) div 26) < nat n" using True by auto
    have "get_column_string_loop n chars = get_column_string_loop ((n - 1) div 26) (chars @ [c])"
      using True unfolding c_def by (subst get_column_string_loop.simps) simp
    also have "\<dots> = (chars @ [c]) @ get_column_string_loop ((n - 1) div 26) []"
      by (rule less[OF lt])
    also have "\<dots> = chars @ get_column_string_loop ((n - 1) div 26) [c]"
      using less[OF lt, of "[c]"] by simp
    also have "get_column_string_loop ((n - 1) div 26) [c] = get_column_string_loop n []"
      using True unfolding c_def by (subst (2) get_column_string_loop.simps) simp
    finally show ?thesis .
  next
    case False
    then show ?thesis by (simp add: get_column_string_loop.simps)
  qed
qed

lemma get_column_string_nonpos: "n \<le> 0 \<Longrightarrow> get_column_string n = []"
  by (simp add: get_column_string_def get_column_string_loop.simps)

lemma get_column_string_rec:
  assumes "0 < n"
  shows "get_column_string n =
    get_column_string ((n - 1) div 26) @ [char_of (of_char (CHR ''A'') + (n - 1) mod 26)]"
proof -
  have "get_column_string_loop n [] =
      get_column_string_loop ((n - 1) div 26) [char_of (of_char (CHR ''A'') + (n - 1) mod 26)]"
    using assms by (subst get_column_string_loop.simps) simp
  also have "\<dots> = [char_of (of_char (CHR ''A'') + (n - 1) mod 26)]
      @ get_column_string_loop ((n - 1) div 26) []"
    by (rule get_column_string_loop_acc)
  finally show ?thesis by (simp add: get_column_string_def)
qed

lemma letter_value:
  fixes r :: int
  assumes "0 \<le> r" "r < 26"
  shows "(of_char (char_of (of_char (CHR ''A'') + r)) :: int) - of_char (CHR ''A'') + 1 = r + 1"
  using assms by (simp add: of_char_of)

lemma column_index_of_snoc:
  "column_index_of (s @ [c]) = column_index_of s * 26 + (of_char c - of_char (CHR ''A'') + 1)"
  by (simp add: column_index_of_def)

lemma column_round_trip: "0 \<le> n \<Longrightarrow> column_index_of (get_column_string n) = n"
proof (induction "nat n" arbitrary: n rule: less_induct)
  case less
  show ?case
  proof (cases "n = 0")
    case True
    then show ?thesis by (simp add: get_column_string_nonpos column_index_of_def)
  next
    case False
    then have pos: "0 < n" using less.prems by simp
    have lt: "nat ((n - 1) div 26) < nat n" using pos by auto
    have nn: "0 \<le> (n - 1) div 26" using pos by simp
    have "column_index_of (get_column_string n) =
        column_index_of (get_column_string ((n - 1) div 26)) * 26 + ((n - 1) mod 26 + 1)"
      by (simp only: get_column_string_rec[OF pos] column_index_of_snoc
          letter_value[of "(n - 1) mod 26"])
    also have "\<dots> = (n - 1) div 26 * 26 + ((n - 1) mod 26 + 1)"
      using less.hyps[OF lt nn] by simp
    also have "\<dots> = n" by simp
    finally show ?thesis .
  qed
qed

lemma get_column_string_examples:
  "get_column_string 1 = ''A''" "get_column_string 26 = ''Z''" "get_column_string 27 = ''AA''"
  "get_column_string 52 = ''AZ''" "get_column_string 53 = ''BA''"
  by code_simp+

text \<open>
  Claim C6. \<open>get_column_string\<close> writes a 1-based column index in bijective base 26:
  1, 26, 27, 52 and 53 become A, Z, AA, AZ and BA; for every positive \<open>n\<close> the last
  letter is the one of \<open>(n - 1) mod 26\<close> and the letters before it are those of the
  quotient \<open>(n - 1) div 26\<close>; the conversion is injective on the positive indices,
  and reading the letters back as a bijective base-26 numeral returns the index.
\<close>

theorem get_column_string_bijective_base26:
  "get_column_string 1 = ''A'' \<and> get_column_string 26 = ''Z'' \<and> get_column_string 27 = ''AA''
   \<and> get_column_string 52 = ''AZ'' \<and> get_column_string 53 = ''BA''
   \<and> (\<forall>n. 0 < n \<longrightarrow> get_column_string n =
         get_column_string ((n - 1) div 26) @ [char_of (of_char (CHR ''A'') + (n - 1) mod 26)])
   \<and> inj_on get_column_string {n. 0 < n}
   \<and> (\<forall>n. 0 < n \<longrightarrow> column_index_of (get_column_string n) = n)"
proof -
  have rt: "\<forall>n. 0 < n \<longrightarrow> column_index_of (get_column_string n) = n"
    by (simp add: column_round_trip)
  have "inj_on get_column_string {n. 0 < n}"
  proof (rule inj_onI)
    fix x y :: int
    assume xy: "x \<in> {n. 0 < n}" "y \<in> {n. 0 < n}"
      and eq: "get_column_string x = get_column_string y"
    have "x = column_index_of (get_column_string x)" using rt xy by simp
    also have "\<dots> = column_index_of (get_column_string y)" using eq by simp
    also have "\<dots> = y" using rt xy by simp
    finally show "x = y" .
  qed
  then show ?thesis
    using rt get_column_string_rec get_column_string_examples by blast
qed

theorem get_column_string_bijective_base26_witness:
  "get_column_string 703 = get_column_string 27 @ ''A''
   \<and> column_index_of (get_column_string 703) = 703
   \<and> (get_column_string 703 = get_column_string 28) = False"
proof -
  note t = get_column_string_bijective_base26
  have r: "get_column_string 703 =
      get_column_string ((703 - 1) div 26)
        @ [char_of (of_char (CHR ''A'') + ((703 :: int) - 1) mod 26)]"
    using t by (meson zero_less_numeral)
  have "char_of (65 :: int) = CHR ''A''" by code_simp
  then have a: "get_column_string 703 = get_column_string 27 @ ''A''"
    using r by simp
  have b: "column_index_of (get_column_string 703) = 703"
    using t by (meson zero_less_numeral)
  have "inj_on get_column_string {n. 0 < n}" using t by blast
  then have c: "(get_column_string 703 = get_column_string 28) = False"
    by (auto dest: inj_onD)
  show ?thesis using a b c by blast
qed

section \<open>Properties of the matcher and of the two line patterns\<close>

lemma star_greedy_SomeD:
  "star_greedy p k s = Some r \<Longrightarrow> \<exists>a b. s = a @ b \<and> (\<forall>c\<in>set a. p c) \<and> k b = Some r"
proof (induction s)
  case Nil
  then show ?case by simp
next
  case (Cons x xs)
  show ?case
  proof (cases "p x \<and> star_greedy p k xs \<noteq> None")
    case True
    then have "star_greedy p k xs = Some r" using Cons.prems by auto
    then obtain a b where "xs = a @ b" "\<forall>c\<in>set a. p c" "k b = Some r"
      using Cons.IH by blast
    then have "x # xs = (x # a) @ b \<and> (\<forall>c\<in>set (x # a). p c) \<and> k b = Some r"
      using True by simp
    then show ?thesis by blast
  next
    case False
    then have "k (x # xs) = Some r" using Cons.prems by (auto split: if_splits)
    then have "x # xs = [] @ (x # xs) \<and> (\<forall>c\<in>set []. p c) \<and> k (x # xs) = Some r" by simp
    then show ?thesis by blast
  qed
qed

lemma star_greedy_SomeI:
  "(\<forall>c\<in>set a. p c) \<Longrightarrow> k b \<noteq> None \<Longrightarrow> star_greedy p k (a @ b) \<noteq> None"
proof (induction a)
  case Nil
  then show ?case by (cases b) (auto split: option.splits)
next
  case (Cons x a)
  then show ?case by (auto split: option.splits)
qed

fun is_mark :: "rx \<Rightarrow> bool" where
  "is_mark GroupOpen = True"
| "is_mark GroupClose = True"
| "is_mark r = False"

lemma rx_run_length:
  "rx_run p n ms s = Some r \<Longrightarrow> length r = Suc (length ms + length (filter is_mark p))"
proof (induction p arbitrary: ms s)
  case Nil
  then show ?case by auto
next
  case (Cons x p)
  show ?case
  proof (cases x)
    case (One c)
    then show ?thesis using Cons by (auto split: list.splits if_splits)
  next
    case (Star c)
    then obtain b where "rx_run p n ms b = Some r"
      using Cons.prems star_greedy_SomeD by fastforce
    then show ?thesis using Cons.IH Star by simp
  next
    case (Plus c)
    then obtain b where "rx_run p n ms b = Some r"
      using Cons.prems star_greedy_SomeD by (fastforce split: list.splits if_splits)
    then show ?thesis using Cons.IH Plus by simp
  next
    case GroupOpen
    then show ?thesis using Cons by auto
  next
    case GroupClose
    then show ?thesis using Cons by auto
  next
    case Bol
    then show ?thesis using Cons by (auto split: if_splits)
  next
    case Eol
    then show ?thesis using Cons by (auto split: if_splits)
  qed
qed


lemma rx_run_Star_D:
  "rx_run (Star c # rs) n ms s = Some r \<Longrightarrow>
     \<exists>a b. s = a @ b \<and> (\<forall>x\<in>set a. cmatch c x) \<and> rx_run rs n ms b = Some r"
  using star_greedy_SomeD[of "cmatch c" "rx_run rs n ms" s r] by simp

lemma rx_run_Star_I:
  "(\<forall>x\<in>set a. cmatch c x) \<Longrightarrow> rx_run rs n ms b \<noteq> None \<Longrightarrow>
     rx_run (Star c # rs) n ms (a @ b) \<noteq> None"
  using star_greedy_SomeI[of a "cmatch c" "rx_run rs n ms" b] by simp

lemma between_append: "between (a @ b) b = a"
  by (simp add: between_def)


lemma entry_field_run_D:
  assumes "rx_run RE_ENTRY_FIELD (length line) [] line = Some r"
  shows "\<exists>a w b t. line = ''msg'' @ a @ [w] @ [dq] @ b @ [dq] @ t
           \<and> nl \<notin> set a \<and> is_space w \<and> nl \<notin> set b \<and> (t = [] \<or> t = [nl])
           \<and> groups r = [''msg'' @ a, b]"
proof -
  from assms obtain s1 where l: "line = ''msg'' @ s1"
    and r1: "rx_run ([Star Dot, GroupClose, One Spc, One (Chr dq), GroupOpen, Star Dot,
        GroupClose, One (Chr dq), Eol]) (length line) [line] s1 = Some r"
    by (auto simp: RE_ENTRY_FIELD_def lit_def split: list.splits if_splits)
  from rx_run_Star_D[OF r1] obtain a s2 where s1: "s1 = a @ s2"
    and a: "\<forall>x\<in>set a. cmatch Dot x"
    and r2: "rx_run ([GroupClose, One Spc, One (Chr dq), GroupOpen, Star Dot,
        GroupClose, One (Chr dq), Eol]) (length line) [line] s2 = Some r"
    by blast
  from r2 obtain w s3 where s2: "s2 = w # dq # s3" and w: "is_space w"
    and r3: "rx_run ([Star Dot, GroupClose, One (Chr dq), Eol]) (length line) [s3, s2, line] s3 = Some r"
    by (auto split: list.splits if_splits)
  from rx_run_Star_D[OF r3] obtain b s4 where s3: "s3 = b @ s4"
    and b: "\<forall>x\<in>set b. cmatch Dot x"
    and r4: "rx_run ([GroupClose, One (Chr dq), Eol]) (length line) [s3, s2, line] s4 = Some r"
    by blast
  from r4 obtain t where s4: "s4 = dq # t" and t: "t = [] \<or> t = [nl]"
    and r: "r = [line, s2, s3, s4, t]"
    by (auto split: list.splits if_splits)
  have "line = ''msg'' @ a @ [w] @ [dq] @ b @ [dq] @ t"
    using l s1 s2 s3 s4 by simp
  moreover have "groups r = [''msg'' @ a, b]"
  proof -
    have "between line s2 = ''msg'' @ a"
      using between_append[of "''msg'' @ a" s2] l s1 by simp
    moreover have "between s3 s4 = b" using between_append[of b s4] s3 by simp
    ultimately show ?thesis using r by simp
  qed
  moreover have "nl \<notin> set a" "nl \<notin> set b" using a b by auto
  ultimately show ?thesis using w t by blast
qed

lemma entry_field_run_I:
  assumes "line = ''msg'' @ a @ [w] @ [dq] @ b @ [dq] @ t"
    and "nl \<notin> set a" "is_space w" "nl \<notin> set b" "t = [] \<or> t = [nl]"
  shows "rx_run RE_ENTRY_FIELD (length line) [] line \<noteq> None"
proof -
  have b: "\<forall>x\<in>set b. cmatch Dot x" using assms(4) by auto
  have a: "\<forall>x\<in>set a. cmatch Dot x" using assms(2) by auto
  have e: "\<And>ms. rx_run ([GroupClose, One (Chr dq), Eol]) (length line) ms (dq # t) \<noteq> None"
    using assms(5) by auto
  have "\<And>ms. rx_run ([Star Dot, GroupClose, One (Chr dq), Eol]) (length line) ms (b @ dq # t) \<noteq> None"
    by (rule rx_run_Star_I[OF b e])
  then have "\<And>ms. rx_run ([GroupClose, One Spc, One (Chr dq), GroupOpen, Star Dot,
        GroupClose, One (Chr dq), Eol]) (length line) ms (w # dq # b @ dq # t) \<noteq> None"
    using assms(3) by simp
  then have "\<And>ms. rx_run ([Star Dot, GroupClose, One Spc, One (Chr dq), GroupOpen, Star Dot,
        GroupClose, One (Chr dq), Eol]) (length line) ms (a @ w # dq # b @ dq # t) \<noteq> None"
    by (rule rx_run_Star_I[OF a])
  then show ?thesis using assms(1) by (simp add: RE_ENTRY_FIELD_def lit_def)
qed

lemma entry_field_match_iff:
  "entry_field_match line = Some (f, v) \<longleftrightarrow>
     (\<exists>r. rx_run RE_ENTRY_FIELD (length line) [] line = Some r \<and> groups r = [f, v])"
  by (auto simp: entry_field_match_def re_match_def split: option.splits list.splits)

lemma entry_field_match_SomeD:
  assumes "entry_field_match line = Some (f, v)"
  shows "\<exists>a w t. line = f @ [w] @ [dq] @ v @ [dq] @ t \<and> f = ''msg'' @ a
           \<and> nl \<notin> set a \<and> is_space w \<and> nl \<notin> set v \<and> (t = [] \<or> t = [nl])"
proof -
  from assms obtain r where r: "rx_run RE_ENTRY_FIELD (length line) [] line = Some r"
    and g: "groups r = [f, v]"
    using entry_field_match_iff by blast
  from entry_field_run_D[OF r] g show ?thesis by auto
qed

lemma entry_field_match_I:
  assumes "line = ''msg'' @ a @ [w] @ [dq] @ b @ [dq] @ t"
    and "nl \<notin> set a" "is_space w" "nl \<notin> set b" "t = [] \<or> t = [nl]"
  shows "entry_field_match line \<noteq> None"
proof -
  obtain r where r: "rx_run RE_ENTRY_FIELD (length line) [] line = Some r"
    using entry_field_run_I[OF assms] by blast
  from entry_field_run_D[OF r] obtain f v where "groups r = [f, v]" by blast
  then have "entry_field_match line = Some (f, v)"
    using r entry_field_match_iff by blast
  then show ?thesis by simp
qed

lemma extra_string_run_D:
  assumes "rx_run RE_EXTRA_STRING (length line) [] line = Some r"
  shows "\<exists>a b c. line = a @ [dq] @ b @ [dq] @ c
           \<and> (\<forall>x\<in>set a. is_space x) \<and> nl \<notin> set b \<and> (\<forall>x\<in>set c. is_space x)"
proof -
  from assms have r0: "rx_run ([Star Spc, One (Chr dq), GroupOpen, Star Dot, GroupClose,
      One (Chr dq), Star Spc, Eol]) (length line) [] line = Some r"
    by (auto simp: RE_EXTRA_STRING_def lit_def split: if_splits)
  from rx_run_Star_D[OF r0] obtain a s1 where l: "line = a @ s1"
    and a: "\<forall>x\<in>set a. cmatch Spc x"
    and r1: "rx_run ([One (Chr dq), GroupOpen, Star Dot, GroupClose,
      One (Chr dq), Star Spc, Eol]) (length line) [] s1 = Some r"
    by blast
  from r1 obtain s2 where s1: "s1 = dq # s2"
    and r2: "rx_run ([Star Dot, GroupClose, One (Chr dq), Star Spc, Eol]) (length line) [s2] s2 = Some r"
    by (auto split: list.splits if_splits)
  from rx_run_Star_D[OF r2] obtain b s3 where s2: "s2 = b @ s3"
    and b: "\<forall>x\<in>set b. cmatch Dot x"
    and r3: "rx_run ([GroupClose, One (Chr dq), Star Spc, Eol]) (length line) [s2] s3 = Some r"
    by blast
  from r3 obtain s4 where s3: "s3 = dq # s4"
    and r4: "rx_run ([Star Spc, Eol]) (length line) [s3, s2] s4 = Some r"
    by (auto split: list.splits if_splits)
  from rx_run_Star_D[OF r4] obtain c t where s4: "s4 = c @ t"
    and c: "\<forall>x\<in>set c. cmatch Spc x"
    and r5: "rx_run [Eol] (length line) [s3, s2] t = Some r"
    by blast
  from r5 have t: "t = [] \<or> t = [nl]" by (auto split: if_splits)
  have "is_space nl" by (simp add: is_space_def)
  then have "\<forall>x\<in>set (c @ t). is_space x" using c t by auto
  moreover have "line = a @ [dq] @ b @ [dq] @ (c @ t)" using l s1 s2 s3 s4 by simp
  moreover have "nl \<notin> set b" using b by auto
  ultimately show ?thesis using a by (metis cmatch.simps(3))
qed

lemma extra_string_run_I:
  assumes "line = a @ [dq] @ b @ [dq] @ c"
    and a: "\<forall>x\<in>set a. is_space x" and "nl \<notin> set b" and c: "\<forall>x\<in>set c. is_space x"
  shows "rx_run RE_EXTRA_STRING (length line) [] line \<noteq> None"
proof -
  have b: "\<forall>x\<in>set b. cmatch Dot x" using assms(3) by auto
  have a': "\<forall>x\<in>set a. cmatch Spc x" using a by simp
  have c': "\<forall>x\<in>set c. cmatch Spc x" using c by simp
  have "\<And>ms. rx_run [Eol] (length line) ms [] \<noteq> None" by simp
  then have "\<And>ms. rx_run ([Star Spc, Eol]) (length line) ms (c @ []) \<noteq> None"
    by (rule rx_run_Star_I[OF c'])
  then have "\<And>ms. rx_run ([GroupClose, One (Chr dq), Star Spc, Eol]) (length line) ms (dq # c) \<noteq> None"
    by simp
  then have "\<And>ms. rx_run ([Star Dot, GroupClose, One (Chr dq), Star Spc, Eol])
      (length line) ms (b @ dq # c) \<noteq> None"
    by (rule rx_run_Star_I[OF b])
  then have "\<And>ms. rx_run ([One (Chr dq), GroupOpen, Star Dot, GroupClose, One (Chr dq), Star Spc, Eol])
      (length line) ms (dq # b @ dq # c) \<noteq> None"
    by simp
  then have "\<And>ms. rx_run ([Star Spc, One (Chr dq), GroupOpen, Star Dot, GroupClose, One (Chr dq),
      Star Spc, Eol]) (length line) ms (a @ dq # b @ dq # c) \<noteq> None"
    by (rule rx_run_Star_I[OF a'])
  then show ?thesis using assms(1) by (simp add: RE_EXTRA_STRING_def lit_def)
qed

lemma extra_string_match_iff:
  "extra_string_match line \<longleftrightarrow>
     (\<exists>a b c. line = a @ [dq] @ b @ [dq] @ c
        \<and> (\<forall>x\<in>set a. is_space x) \<and> nl \<notin> set b \<and> (\<forall>x\<in>set c. is_space x))"
proof
  assume "extra_string_match line"
  then obtain r where "rx_run RE_EXTRA_STRING (length line) [] line = Some r"
    by (auto simp: extra_string_match_def re_match_def)
  then show "\<exists>a b c. line = a @ [dq] @ b @ [dq] @ c
        \<and> (\<forall>x\<in>set a. is_space x) \<and> nl \<notin> set b \<and> (\<forall>x\<in>set c. is_space x)"
    by (rule extra_string_run_D)
next
  assume "\<exists>a b c. line = a @ [dq] @ b @ [dq] @ c
        \<and> (\<forall>x\<in>set a. is_space x) \<and> nl \<notin> set b \<and> (\<forall>x\<in>set c. is_space x)"
  then have "rx_run RE_EXTRA_STRING (length line) [] line \<noteq> None"
    using extra_string_run_I by blast
  then show "extra_string_match line"
    by (simp add: extra_string_match_def re_match_def)
qed

section \<open>The line classifier\<close>

lemma not_space_m: "\<not> is_space (CHR ''m'')" by (simp add: is_space_def)
lemma not_space_dq: "\<not> is_space dq" by (simp add: is_space_def)
lemma is_space_nl: "is_space nl" by (simp add: is_space_def)

lemma entry_field_match_None_iff:
  "entry_field_match line \<noteq> None \<longleftrightarrow>
     (\<exists>a w b t. line = ''msg'' @ a @ [w] @ ''\"'' @ b @ ''\"'' @ t
        \<and> nl \<notin> set a \<and> is_space w \<and> nl \<notin> set b \<and> (t = [] \<or> t = ''\<newline>''))"
proof
  assume "entry_field_match line \<noteq> None"
  then obtain f v where "entry_field_match line = Some (f, v)" by auto
  from entry_field_match_SomeD[OF this] obtain a w t where
    "line = f @ [w] @ [dq] @ v @ [dq] @ t" "f = ''msg'' @ a"
    "nl \<notin> set a" "is_space w" "nl \<notin> set v" "t = [] \<or> t = [nl]"
    by blast
  then have "line = ''msg'' @ a @ [w] @ ''\"'' @ v @ ''\"'' @ t
        \<and> nl \<notin> set a \<and> is_space w \<and> nl \<notin> set v \<and> (t = [] \<or> t = ''\<newline>'')"
    by simp
  then show "\<exists>a w b t. line = ''msg'' @ a @ [w] @ ''\"'' @ b @ ''\"'' @ t
        \<and> nl \<notin> set a \<and> is_space w \<and> nl \<notin> set b \<and> (t = [] \<or> t = ''\<newline>'')"
    by blast
next
  assume "\<exists>a w b t. line = ''msg'' @ a @ [w] @ ''\"'' @ b @ ''\"'' @ t
        \<and> nl \<notin> set a \<and> is_space w \<and> nl \<notin> set b \<and> (t = [] \<or> t = ''\<newline>'')"
  then show "entry_field_match line \<noteq> None"
    using entry_field_match_I by blast
qed

lemma field_not_extra:
  assumes "entry_field_match line \<noteq> None"
  shows "\<not> extra_string_match line"
proof
  assume "extra_string_match line"
  then obtain a b c where l: "line = a @ [dq] @ b @ [dq] @ c" and a: "\<forall>x\<in>set a. is_space x"
    using extra_string_match_iff by blast
  from assms obtain s where m: "line = CHR ''m'' # s"
    using entry_field_match_None_iff by auto
  show False
  proof (cases a)
    case Nil
    then show False using l m by simp
  next
    case (Cons x a')
    then have "x = CHR ''m''" using l m by simp
    then show False using a Cons not_space_m by simp
  qed
qed

text \<open>
  Claim C3, as the program has it. The program's pattern for an entry-field line is
  \<^verbatim>\<open>^(msg.*)\s"(.*)"$\<close>: a line is an entry-field line exactly when it is \<open>msg\<close>, any
  characters but a newline, one whitespace character, a double quote, any characters
  but a newline, a double quote, and then nothing or the final newline. A line is a
  continuation-string line exactly when it matches \<^verbatim>\<open>^\s*"(.*)"\s*$\<close>: whitespace, a
  double quote, any characters but a newline, a double quote, whitespace. No line is
  both; every line that is neither takes the other branch of the locator and of the
  rewriter.
\<close>

theorem line_classifier_grammar:
  "(entry_field_match line \<noteq> None \<longleftrightarrow>
      (\<exists>a w b t. line = ''msg'' @ a @ [w] @ ''\"'' @ b @ ''\"'' @ t
         \<and> nl \<notin> set a \<and> is_space w \<and> nl \<notin> set b \<and> (t = [] \<or> t = ''\<newline>'')))
   \<and> (extra_string_match line \<longleftrightarrow>
      (\<exists>a b c. line = a @ ''\"'' @ b @ ''\"'' @ c
         \<and> (\<forall>x\<in>set a. is_space x) \<and> nl \<notin> set b \<and> (\<forall>x\<in>set c. is_space x)))
   \<and> \<not> (entry_field_match line \<noteq> None \<and> extra_string_match line)"
  using entry_field_match_None_iff[of line] extra_string_match_iff[of line] field_not_extra[of line]
  by blast

theorem line_classifier_grammar_witness:
  "entry_field_match ''msgid foo \"x\"'' \<noteq> None \<and> extra_string_match ''msgid foo \"x\"'' = False"
proof -
  have "''msgid foo \"x\"'' = ''msg'' @ ''id foo'' @ [CHR '' ''] @ ''\"'' @ ''x'' @ ''\"'' @ []
      \<and> nl \<notin> set ''id foo'' \<and> is_space (CHR '' '') \<and> nl \<notin> set ''x'' \<and> ([] = [] \<or> [] = ''\<newline>'')"
    by (simp add: is_space_def)
  then have "\<exists>a w b t. ''msgid foo \"x\"'' = ''msg'' @ a @ [w] @ ''\"'' @ b @ ''\"'' @ t
         \<and> nl \<notin> set a \<and> is_space w \<and> nl \<notin> set b \<and> (t = [] \<or> t = ''\<newline>'')"
    by blast
  then show ?thesis using line_classifier_grammar[of "''msgid foo \"x\"''"] by blast
qed

text \<open>
  The claim as stated names the pattern \<^verbatim>\<open>^(msg\S*)\s+"(.*)"$\<close>, which allows no
  whitespace inside the field name. The line \<^verbatim>\<open>msgid foo "x"\<close> does not match it, and
  the program takes it as an entry-field line with the field \<open>msgid foo\<close>.
\<close>

theorem entry_field_pattern_counterexample:
  "entry_field_match ''msgid foo \"x\"'' = Some (''msgid foo'', ''x'')
   \<and> re_match SPEC_ENTRY_FIELD ''msgid foo \"x\"'' = None"
  by code_simp

section \<open>Indented field lines: push against pull\<close>

lemma strip_indented_field:
  assumes ws: "\<forall>c\<in>set ws. is_space c"
    and t: "t = [] \<or> t = [nl]"
  shows "strip (ws @ ''msg'' @ a @ [w] @ [dq] @ b @ [dq] @ t) = ''msg'' @ a @ [w] @ [dq] @ b @ [dq]"
proof -
  have 1: "dropWhile is_space (ws @ ''msg'' @ a @ [w] @ [dq] @ b @ [dq] @ t)
      = ''msg'' @ a @ [w] @ [dq] @ b @ [dq] @ t"
    using ws by (simp add: dropWhile_append2 not_space_m)
  have 2: "dropWhile is_space (rev t @ dq # rev (''msg'' @ a @ [w] @ [dq] @ b))
      = dq # rev (''msg'' @ a @ [w] @ [dq] @ b)"
    using t by (auto simp: is_space_nl not_space_dq)
  have "rev (''msg'' @ a @ [w] @ [dq] @ b @ [dq] @ t) = rev t @ dq # rev (''msg'' @ a @ [w] @ [dq] @ b)"
    by simp
  then show ?thesis unfolding strip_def 1 using 2 by simp
qed

lemma indented_not_field:
  assumes "ws \<noteq> []" "\<forall>c\<in>set ws. is_space c"
  shows "entry_field_match (ws @ e) = None"
proof (rule ccontr)
  assume "entry_field_match (ws @ e) \<noteq> None"
  then obtain f v where "entry_field_match (ws @ e) = Some (f, v)" by auto
  from entry_field_match_SomeD[OF this] obtain s where "ws @ e = CHR ''m'' # s" by auto
  then have "hd ws = CHR ''m''" using assms(1) by (cases ws) auto
  then show False using assms not_space_m by (cases ws) auto
qed

lemma indented_field_not_extra:
  assumes ws: "\<forall>c\<in>set ws. is_space c" and e: "entry_field_match e \<noteq> None"
  shows "\<not> extra_string_match (ws @ e)"
proof
  assume "extra_string_match (ws @ e)"
  then obtain a b c where l: "ws @ e = a @ [dq] @ b @ [dq] @ c" and a: "\<forall>x\<in>set a. is_space x"
    using extra_string_match_iff by blast
  from e obtain f v where "entry_field_match e = Some (f, v)" by auto
  from entry_field_match_SomeD[OF this] obtain s where m: "e = CHR ''m'' # s" by auto
  have "takeWhile is_space (ws @ CHR ''m'' # s) = ws"
    using ws by (simp add: takeWhile_append2 not_space_m)
  moreover have "takeWhile is_space (a @ dq # b @ [dq] @ c) = a"
    using a by (simp add: takeWhile_append2 not_space_dq)
  ultimately have "ws = a" using l m by simp
  then show False using l m by simp
qed

text \<open>
  Claim C10. Push classifies \<open>line.strip()\<close>, the locator and the rewriter of pull
  classify the line as read. For every entry-field line \<open>e\<close> behind a non-empty run
  of whitespace \<open>ws\<close>: the stripped line is an entry-field line and
  \<open>process_po_file\<close>'s loop stores its field in the entry, while the line as read
  matches neither pattern, so that a round of the locator that reads it buffers it as
  context and a round of the rewriter that reads it stops in front of it.
\<close>

theorem indented_field_push_not_pull:
  assumes "ws \<noteq> []" and "\<forall>c\<in>set ws. is_space c" and "entry_field_match e \<noteq> None"
  shows "(\<exists>f v. entry_field_match (strip (ws @ e)) = Some (f, v)
            \<and> process_po_lines [ws @ e] [] [] = ([(f, v)], []))
         \<and> entry_field_match (ws @ e) = None \<and> \<not> extra_string_match (ws @ e)
         \<and> (readline_of (drop (position st) txt) = ws @ e \<longrightarrow>
              (\<exists>st'. find_msgid_step txt msgid st = Continue st' \<and> \<not> reading_an_entry st'
                 \<and> buffered_lines st' = (if reading_an_entry st then [] else buffered_lines st) @ [ws @ e]))
         \<and> (readline_of (drop (pos (read_handle h)) (content (read_handle h))) = ws @ e \<longrightarrow>
              write_entry_step row column_mapping h = Return h)"
proof -
  from assms(3) obtain f0 v0 where "entry_field_match e = Some (f0, v0)" by auto
  from entry_field_match_SomeD[OF this] obtain a w t where
    e: "e = ''msg'' @ a @ [w] @ [dq] @ v0 @ [dq] @ t" and c: "nl \<notin> set a" "is_space w" "nl \<notin> set v0"
    and t: "t = [] \<or> t = [nl]"
    by auto
  have s: "strip (ws @ e) = ''msg'' @ a @ [w] @ [dq] @ v0 @ [dq] @ []"
    using strip_indented_field[OF assms(2) t] e by simp
  have "entry_field_match (strip (ws @ e)) \<noteq> None"
    by (rule entry_field_match_I[OF s c]) simp
  then obtain f v where fv: "entry_field_match (strip (ws @ e)) = Some (f, v)" by auto
  then have push: "process_po_lines [ws @ e] [] [] = ([(f, v)], [])" by simp
  have n1: "entry_field_match (ws @ e) = None" by (rule indented_not_field[OF assms(1,2)])
  have n2: "\<not> extra_string_match (ws @ e)" by (rule indented_field_not_extra[OF assms(2,3)])
  have ne: "ws @ e \<noteq> []" using assms(1) by simp
  have loc: "readline_of (drop (position st) txt) = ws @ e \<longrightarrow>
      (\<exists>st'. find_msgid_step txt msgid st = Continue st' \<and> \<not> reading_an_entry st'
         \<and> buffered_lines st' = (if reading_an_entry st then [] else buffered_lines st) @ [ws @ e])"
  proof
    assume r: "readline_of (drop (position st) txt) = ws @ e"
    show "\<exists>st'. find_msgid_step txt msgid st = Continue st' \<and> \<not> reading_an_entry st'
         \<and> buffered_lines st' = (if reading_an_entry st then [] else buffered_lines st) @ [ws @ e]"
      unfolding find_msgid_step_def Let_def r using n1 n2 assms(1) by simp
  qed
  have rew: "readline_of (drop (pos (read_handle h)) (content (read_handle h))) = ws @ e \<longrightarrow>
      write_entry_step row column_mapping h = Return h"
  proof
    assume r: "readline_of (drop (pos (read_handle h)) (content (read_handle h))) = ws @ e"
    show "write_entry_step row column_mapping h = Return h"
      unfolding write_entry_step_def Let_def r using n1 n2 by simp
  qed
  show ?thesis using fv push n1 n2 loc rew by blast
qed

theorem indented_field_push_not_pull_witness:
  "process_po_file ''  msgid \"x\"\<newline>'' = [[(''msgid'', ''x'')]]
   \<and> entry_field_match ''  msgid \"x\"\<newline>'' = None
   \<and> extra_string_match ''  msgid \"x\"\<newline>'' = False
   \<and> find_msgid_in_file \<lparr>content = ''  msgid \"x\"\<newline>'', pos = 0\<rparr> ''x'' = Inl EntryNotFoundError"
proof -
  have h1: "''  '' \<noteq> []" by simp
  have h2: "\<forall>c\<in>set ''  ''. is_space c" by (simp add: is_space_def)
  have h3: "entry_field_match ''msgid \"x\"\<newline>'' \<noteq> None" by code_simp
  note t = indented_field_push_not_pull[OF h1 h2 h3]
  have a: "entry_field_match ''  msgid \"x\"\<newline>'' = None"
    "extra_string_match ''  msgid \"x\"\<newline>'' = False"
    using t by simp_all
  have b: "process_po_file ''  msgid \"x\"\<newline>'' = [[(''msgid'', ''x'')]]" by code_simp
  have c: "find_msgid_in_file \<lparr>content = ''  msgid \"x\"\<newline>'', pos = 0\<rparr> ''x''
      = Inl EntryNotFoundError"
    by code_simp
  show ?thesis using a b c by simp
qed

section \<open>The push request and the extraction of entries\<close>

lemma map_result_Inr_length:
  "map_result f xs = Inr ys \<Longrightarrow> length ys = length xs"
  by (induction xs arbitrary: ys) (auto split: sum.splits)

lemma map_result_total:
  "(\<forall>x\<in>set xs. \<exists>y. f x = Inr y) \<Longrightarrow> \<exists>ys. map_result f xs = Inr ys"
  by (induction xs) (auto split: sum.splits)

text \<open>A column that \<open>populate_column\<close> can fill: a non-empty static text, or the key \<open>fields\<close>.\<close>

definition column_ok :: "column \<Rightarrow> bool" where
  "column_ok c \<longleftrightarrow>
     (case col_static c of Some (x # xs) \<Rightarrow> True | _ \<Rightarrow> col_fields c \<noteq> None)"

lemma populate_column_total:
  "column_ok c \<Longrightarrow> \<exists>y. populate_column c entry metadata = Inr y"
  by (auto simp: column_ok_def populate_column_def split: option.splits list.splits)

lemma example_push:
  "build_request_body example_settings (process_po_file example_catalog) 5 True Map.empty
     = Inr (''Sheet1!A6:B8'', [[''ID'', ''TEXT''], [''hello'', ''ola''], [''bye'', ''tchau'']])"
  by code_simp

text \<open>
  Claim C7. Whenever \<open>build_request_body\<close> returns, the range it names is
  \<open>Sheet!C1R1:C2R2\<close> with \<open>R1 = 1 + row_offset\<close> and
  \<open>R2 = R1 + entry_count - 1 + (1 if the header is printed else 0)\<close>, the columns being
  the letters of \<open>1 + column_offset\<close> and of \<open>1 + column_offset + len(columns) - 1\<close>,
  and the body has one row per entry after the header row. It returns whenever every
  column has a header and either a non-empty static text or a list of fields. On the
  catalog of three entries (the header and two translatable ones) with
  \<open>row_offset = 5\<close>, \<open>column_offset = 0\<close> and the columns \<open>["msgid"]\<close>, \<open>["msgstr"]\<close>
  the range is \<open>Sheet1!A6:B8\<close>: the header row, then the two entries in source order.
\<close>

theorem build_request_body_range:
  "(build_request_body settings entries off print_header metadata = Inr (range_name, rows) \<longrightarrow>
      range_name =
        sheet settings @ ''!''
        @ get_column_string (1 + column_offset settings) @ str_int (1 + off) @ '':''
        @ get_column_string (1 + column_offset settings + int (length (columns settings)) - 1)
        @ str_int (1 + off + int (length entries) - 1 + (if print_header then 1 else 0))
      \<and> length rows = length entries + (if print_header then 1 else 0))
   \<and> ((\<forall>c\<in>set (columns settings). column_ok c \<and> col_header c \<noteq> None) \<longrightarrow>
        (\<exists>r. build_request_body settings entries off print_header metadata = Inr r))
   \<and> build_request_body example_settings (process_po_file example_catalog) 5 True Map.empty
        = Inr (''Sheet1!A6:B8'', [[''ID'', ''TEXT''], [''hello'', ''ola''], [''bye'', ''tchau'']])"
proof -
  have a: "build_request_body settings entries off print_header metadata = Inr (range_name, rows) \<longrightarrow>
      range_name =
        sheet settings @ ''!''
        @ get_column_string (1 + column_offset settings) @ str_int (1 + off) @ '':''
        @ get_column_string (1 + column_offset settings + int (length (columns settings)) - 1)
        @ str_int (1 + off + int (length entries) - 1 + (if print_header then 1 else 0))
      \<and> length rows = length entries + (if print_header then 1 else 0)"
  proof
    assume r: "build_request_body settings entries off print_header metadata = Inr (range_name, rows)"
    define hs where "hs = (if print_header
      then map_result (map_result column_header) [columns settings] else Inr [])"
    define rs where "rs = map_result
      (\<lambda>entry. build_request_entry (columns settings) entry metadata) entries"
    from r obtain headers where h: "hs = Inr headers"
      unfolding build_request_body_def Let_def hs_def[symmetric]
      by (cases hs) auto
    from r h obtain body where b: "rs = Inr body"
      unfolding build_request_body_def Let_def hs_def[symmetric] rs_def[symmetric]
      by (cases rs) auto
    have res: "range_name = generate_range_name (sheet settings) (1 + off)
          (1 + off + int (length entries) - 1 + (if print_header then 1 else 0))
          (get_column_string (1 + column_offset settings))
          (get_column_string (1 + column_offset settings + int (length (columns settings)) - 1))"
      and rows: "rows = headers @ body"
      using r h b
      unfolding build_request_body_def Let_def hs_def[symmetric] rs_def[symmetric]
      by simp_all
    have "length headers = (if print_header then 1 else 0)"
      using h map_result_Inr_length[of "map_result column_header" "[columns settings]" headers]
      unfolding hs_def by (simp split: if_splits)
    moreover have "length body = length entries"
      using b map_result_Inr_length unfolding rs_def by blast
    ultimately have "length rows = length entries + (if print_header then 1 else 0)"
      using rows by simp
    then show "range_name =
        sheet settings @ ''!''
        @ get_column_string (1 + column_offset settings) @ str_int (1 + off) @ '':''
        @ get_column_string (1 + column_offset settings + int (length (columns settings)) - 1)
        @ str_int (1 + off + int (length entries) - 1 + (if print_header then 1 else 0))
      \<and> length rows = length entries + (if print_header then 1 else 0)"
      using res by (simp add: generate_range_name_def)
  qed
  have b: "(\<forall>c\<in>set (columns settings). column_ok c \<and> col_header c \<noteq> None) \<longrightarrow>
        (\<exists>r. build_request_body settings entries off print_header metadata = Inr r)"
  proof
    assume ok: "\<forall>c\<in>set (columns settings). column_ok c \<and> col_header c \<noteq> None"
    have "\<forall>c\<in>set (columns settings). \<exists>y. column_header c = Inr y"
      using ok by (auto simp: column_header_def)
    then have "\<exists>hs. map_result column_header (columns settings) = Inr hs"
      by (rule map_result_total)
    then obtain hs where hs: "map_result column_header (columns settings) = Inr hs"
      by (elim exE)
    have pc: "\<forall>c\<in>set (columns settings). \<exists>y. populate_column c entry metadata = Inr y"
      for entry using ok populate_column_total by blast
    have "\<exists>ys. build_request_entry (columns settings) entry metadata = Inr ys" for entry
      unfolding build_request_entry_def by (rule map_result_total[OF pc])
    then have "\<forall>entry\<in>set entries. \<exists>y. build_request_entry (columns settings) entry metadata = Inr y"
      by simp
    then have "\<exists>rs. map_result
        (\<lambda>entry. build_request_entry (columns settings) entry metadata) entries = Inr rs"
      by (rule map_result_total)
    then obtain rs where
      rs: "map_result (\<lambda>entry. build_request_entry (columns settings) entry metadata) entries = Inr rs"
      by (elim exE)
    show "\<exists>r. build_request_body settings entries off print_header metadata = Inr r"
      using hs rs by (simp add: build_request_body_def Let_def)
  qed
  show ?thesis by (intro conjI a b example_push)
qed

theorem build_request_body_range_witness:
  "process_po_file example_catalog
     = [[(''msgid'', ''hello''), (''msgstr'', ''ola'')], [(''msgid'', ''bye''), (''msgstr'', ''tchau'')]]
   \<and> (\<exists>rows. build_request_body example_settings (process_po_file example_catalog) 5 True Map.empty
         = Inr (''Sheet1!A6:B8'', rows) \<and> length rows = 3)"
proof -
  have e: "process_po_file example_catalog
     = [[(''msgid'', ''hello''), (''msgstr'', ''ola'')], [(''msgid'', ''bye''), (''msgstr'', ''tchau'')]]"
    by code_simp
  note t = build_request_body_range[of example_settings "process_po_file example_catalog" 5 True
      Map.empty "''Sheet1!A6:B8''" "[[''ID'', ''TEXT''], [''hello'', ''ola''], [''bye'', ''tchau'']]"]
  have "length [[''ID'', ''TEXT''], [''hello'', ''ola''], [''bye'', ''tchau'']]
      = length (process_po_file example_catalog) + (if True then 1 else 0)"
    using t by blast
  then show ?thesis using e t by simp
qed

text \<open>
  Claim C4 at a catalog that holds the header entry only. The last entry is appended
  under \<open>if entry:\<close>, which asks for a key and not for a non-empty value as the check
  inside the loop does (\<open>any(entry.values())\<close>): the header, whose values are all
  empty, is returned as an entry.
\<close>

theorem process_po_file_keeps_final_header:
  "process_po_file ''msgid \"\"\<newline>msgstr \"\"\<newline>'' = [[(''msgid'', ''''), (''msgstr'', '''')]]"
  by code_simp

section \<open>The catalog locator wraps around once\<close>

declare find_msgid_loop.simps [simp del]
declare find_msgid_rounds.simps [simp del]
declare file_lines.simps [simp del]

text \<open>
  A line that ends the search for \<open>msgid\<close>: \<open>field == 'msgid' and value == msgid\<close>. The
  state in which the loop goes on after the first end of file.
\<close>

definition is_target :: "string \<Rightarrow> string \<Rightarrow> bool" where
  "is_target msgid line \<longleftrightarrow> entry_field_match line = Some (''msgid'', msgid)"

definition wrapped_scan :: scan_state where
  "wrapped_scan =
     \<lparr>wrapped = True, buffered_lines = [[]], pre_entry_position = 0,
      reading_an_entry = False, position = 0\<rparr>"

lemma file_lines_Nil: "file_lines [] = []"
  by (simp add: file_lines.simps)

lemma file_lines_drop:
  assumes "readline_of (drop p txt) \<noteq> []"
  shows "file_lines (drop p txt) =
    readline_of (drop p txt) # file_lines (drop (p + length (readline_of (drop p txt))) txt)"
proof -
  have "drop p txt \<noteq> []" using assms readline_of_empty by blast
  then show ?thesis
    by (subst file_lines.simps) (simp add: add.commute)
qed

lemma file_lines_eof:
  assumes "readline_of (drop p txt) = []"
  shows "file_lines (drop p txt) = []"
  using assms by (simp add: readline_of_empty file_lines_Nil)

lemma step_target:
  assumes "is_target msgid (readline_of (drop (position st) txt))"
  shows "\<exists>st'. find_msgid_step txt msgid st = Return st' \<and> wrapped st' = wrapped st"
proof -
  have "readline_of (drop (position st) txt) \<noteq> []"
    using assms entry_field_match_empty by (auto simp: is_target_def)
  then show ?thesis
    using assms by (simp add: find_msgid_step_def Let_def is_target_def)
qed

lemma step_other:
  assumes "readline_of (drop (position st) txt) \<noteq> []"
    and "\<not> is_target msgid (readline_of (drop (position st) txt))"
  shows "\<exists>st'. find_msgid_step txt msgid st = Continue st' \<and> wrapped st' = wrapped st
    \<and> position st' = position st + length (readline_of (drop (position st) txt))"
  using assms
  by (auto simp: find_msgid_step_def Let_def is_target_def split: option.splits)

lemma step_eof_unwrapped:
  assumes "readline_of (drop (position st) txt) = []" and "\<not> wrapped st"
  shows "find_msgid_step txt msgid st = Continue wrapped_scan"
  using assms
  by (simp add: find_msgid_step_def Let_def entry_field_match_empty extra_string_match_empty
      wrapped_scan_def)

lemma step_eof_wrapped:
  assumes "readline_of (drop (position st) txt) = []" and "wrapped st"
  shows "find_msgid_step txt msgid st = Raise EntryNotFoundError"
  using assms by (simp add: find_msgid_step_def Let_def)

lemma loop_found:
  assumes "\<exists>line\<in>set (file_lines (drop (position st) txt)). is_target msgid line"
  shows "\<exists>st'. find_msgid_loop txt msgid st = Inr st' \<and> wrapped st' = wrapped st"
  using assms
proof (induction "file_lines (drop (position st) txt)" arbitrary: st)
  case Nil
  then show ?case by simp
next
  case (Cons line rest)
  have ne: "readline_of (drop (position st) txt) \<noteq> []"
    using Cons.hyps(2) file_lines_eof by fastforce
  note fl = file_lines_drop[OF ne]
  show ?case
  proof (cases "is_target msgid (readline_of (drop (position st) txt))")
    case True
    then show ?thesis
      using step_target[OF True] by (subst find_msgid_loop.simps) auto
  next
    case False
    from step_other[OF ne False] obtain st' where
      s: "find_msgid_step txt msgid st = Continue st'" and w: "wrapped st' = wrapped st"
      and p: "position st' = position st + length (readline_of (drop (position st) txt))"
      by blast
    have r: "rest = file_lines (drop (position st') txt)"
      using Cons.hyps(2) fl p by simp
    have "\<exists>line\<in>set (file_lines (drop (position st') txt)). is_target msgid line"
      using Cons.prems fl False p by auto
    from Cons.hyps(1)[OF r this] obtain st'' where
      "find_msgid_loop txt msgid st' = Inr st''" "wrapped st'' = wrapped st'"
      by blast
    then show ?thesis using s w by (subst find_msgid_loop.simps) simp
  qed
qed

lemma loop_not_found_wrapped:
  assumes "\<not> (\<exists>line\<in>set (file_lines (drop (position st) txt)). is_target msgid line)"
    and "wrapped st"
  shows "find_msgid_loop txt msgid st = Inl EntryNotFoundError"
  using assms
proof (induction "file_lines (drop (position st) txt)" arbitrary: st)
  case Nil
  have "readline_of (drop (position st) txt) = []"
  proof (rule ccontr)
    assume "readline_of (drop (position st) txt) \<noteq> []"
    from file_lines_drop[OF this] show False using Nil.hyps by simp
  qed
  from step_eof_wrapped[OF this Nil.prems(2)] show ?case
    by (subst find_msgid_loop.simps) simp
next
  case (Cons line rest)
  have ne: "readline_of (drop (position st) txt) \<noteq> []"
    using Cons.hyps(2) file_lines_eof by fastforce
  note fl = file_lines_drop[OF ne]
  have nt: "\<not> is_target msgid (readline_of (drop (position st) txt))"
    using Cons.prems(1) fl by auto
  from step_other[OF ne nt] obtain st' where
    s: "find_msgid_step txt msgid st = Continue st'" and w: "wrapped st' = wrapped st"
    and p: "position st' = position st + length (readline_of (drop (position st) txt))"
    by blast
  have r: "rest = file_lines (drop (position st') txt)"
    using Cons.hyps(2) fl p by simp
  have "\<not> (\<exists>line\<in>set (file_lines (drop (position st') txt)). is_target msgid line)"
    using Cons.prems(1) fl p by auto
  from Cons.hyps(1)[OF r this] w Cons.prems(2)
  have "find_msgid_loop txt msgid st' = Inl EntryNotFoundError" by simp
  then show ?case using s by (subst find_msgid_loop.simps) simp
qed

lemma loop_wraps:
  assumes "\<not> (\<exists>line\<in>set (file_lines (drop (position st) txt)). is_target msgid line)"
    and "\<not> wrapped st"
  shows "find_msgid_loop txt msgid st = find_msgid_loop txt msgid wrapped_scan"
  using assms
proof (induction "file_lines (drop (position st) txt)" arbitrary: st)
  case Nil
  have "readline_of (drop (position st) txt) = []"
  proof (rule ccontr)
    assume "readline_of (drop (position st) txt) \<noteq> []"
    from file_lines_drop[OF this] show False using Nil.hyps by simp
  qed
  from step_eof_unwrapped[OF this Nil.prems(2)] show ?case
    by (subst find_msgid_loop.simps) simp
next
  case (Cons line rest)
  have ne: "readline_of (drop (position st) txt) \<noteq> []"
    using Cons.hyps(2) file_lines_eof by fastforce
  note fl = file_lines_drop[OF ne]
  have nt: "\<not> is_target msgid (readline_of (drop (position st) txt))"
    using Cons.prems(1) fl by auto
  from step_other[OF ne nt] obtain st' where
    s: "find_msgid_step txt msgid st = Continue st'" and w: "wrapped st' = wrapped st"
    and p: "position st' = position st + length (readline_of (drop (position st) txt))"
    by blast
  have r: "rest = file_lines (drop (position st') txt)"
    using Cons.hyps(2) fl p by simp
  have "\<not> (\<exists>line\<in>set (file_lines (drop (position st') txt)). is_target msgid line)"
    using Cons.prems(1) fl p by auto
  from Cons.hyps(1)[OF r this] w Cons.prems(2)
  have "find_msgid_loop txt msgid st' = find_msgid_loop txt msgid wrapped_scan" by simp
  then show ?case using s by (subst find_msgid_loop.simps) simp
qed

lemma rounds_bound_wrapped:
  assumes "wrapped st"
  shows "find_msgid_rounds txt msgid st \<le> length (file_lines (drop (position st) txt)) + 1"
  using assms
proof (induction "file_lines (drop (position st) txt)" arbitrary: st)
  case Nil
  have "readline_of (drop (position st) txt) = []"
  proof (rule ccontr)
    assume "readline_of (drop (position st) txt) \<noteq> []"
    from file_lines_drop[OF this] show False using Nil.hyps by simp
  qed
  from step_eof_wrapped[OF this Nil.prems] show ?case
    by (subst find_msgid_rounds.simps) simp
next
  case (Cons line rest)
  have ne: "readline_of (drop (position st) txt) \<noteq> []"
    using Cons.hyps(2) file_lines_eof by fastforce
  note fl = file_lines_drop[OF ne]
  show ?case
  proof (cases "is_target msgid (readline_of (drop (position st) txt))")
    case True
    from step_target[OF True] show ?thesis
      by (subst find_msgid_rounds.simps) auto
  next
    case False
    from step_other[OF ne False] obtain st' where
      s: "find_msgid_step txt msgid st = Continue st'" and w: "wrapped st' = wrapped st"
      and p: "position st' = position st + length (readline_of (drop (position st) txt))"
      by blast
    have r: "rest = file_lines (drop (position st') txt)"
      using Cons.hyps(2) fl p by simp
    have "find_msgid_rounds txt msgid st' \<le> length (file_lines (drop (position st') txt)) + 1"
      using Cons.hyps(1)[OF r] w Cons.prems by simp
    moreover have "length (file_lines (drop (position st) txt))
        = Suc (length (file_lines (drop (position st') txt)))"
      using fl p by simp
    ultimately show ?thesis using s by (subst find_msgid_rounds.simps) simp
  qed
qed

lemma rounds_wrapped_scan:
  "find_msgid_rounds txt msgid wrapped_scan \<le> length (file_lines txt) + 1"
  using rounds_bound_wrapped[of wrapped_scan "txt" msgid] by (simp add: wrapped_scan_def)

lemma rounds_bound_unwrapped:
  assumes "\<not> wrapped st"
  shows "find_msgid_rounds txt msgid st
    \<le> length (file_lines (drop (position st) txt)) + length (file_lines txt) + 2"
  using assms
proof (induction "file_lines (drop (position st) txt)" arbitrary: st)
  case Nil
  have "readline_of (drop (position st) txt) = []"
  proof (rule ccontr)
    assume "readline_of (drop (position st) txt) \<noteq> []"
    from file_lines_drop[OF this] show False using Nil.hyps by simp
  qed
  from step_eof_unwrapped[OF this Nil.prems] show ?case
    using rounds_wrapped_scan[of "txt" msgid] by (subst find_msgid_rounds.simps) simp
next
  case (Cons line rest)
  have ne: "readline_of (drop (position st) txt) \<noteq> []"
    using Cons.hyps(2) file_lines_eof by fastforce
  note fl = file_lines_drop[OF ne]
  show ?case
  proof (cases "is_target msgid (readline_of (drop (position st) txt))")
    case True
    from step_target[OF True] show ?thesis
      by (subst find_msgid_rounds.simps) auto
  next
    case False
    from step_other[OF ne False] obtain st' where
      s: "find_msgid_step txt msgid st = Continue st'" and w: "wrapped st' = wrapped st"
      and p: "position st' = position st + length (readline_of (drop (position st) txt))"
      by blast
    have r: "rest = file_lines (drop (position st') txt)"
      using Cons.hyps(2) fl p by simp
    have "find_msgid_rounds txt msgid st'
        \<le> length (file_lines (drop (position st') txt)) + length (file_lines txt) + 2"
      using Cons.hyps(1)[OF r] w Cons.prems by simp
    moreover have "length (file_lines (drop (position st) txt))
        = Suc (length (file_lines (drop (position st') txt)))"
      using fl p by simp
    ultimately show ?thesis using s by (subst find_msgid_rounds.simps) simp
  qed
qed

text \<open>
  Claim C1. \<open>find_msgid_in_file\<close> always returns or raises (the loop is a total
  function), from any cursor position. When a line from the cursor on is the field
  \<open>msgid\<close> with the target value, the entry is found without a wraparound. When no
  such line lies from the cursor on but one lies in the file, the entry is found
  after the one wraparound (\<open>wrapped\<close> is set when the loop returns). When the file
  has no such line at all, \<open>EntryNotFoundError\<close> is raised, at the second end of file.
  In every case the loop makes at most as many rounds, each reading one line, as there
  are lines from the cursor on, plus the lines of the whole file, plus the two reads
  that meet the end of the file: the file is scanned at most twice.
\<close>

theorem find_msgid_in_file_wraps_once:
  "((\<exists>line\<in>set (file_lines (drop (pos h) (content h))). is_target msgid line) \<longrightarrow>
      (\<exists>st. find_msgid_loop (content h) msgid (initial_scan (pos h)) = Inr st \<and> \<not> wrapped st
         \<and> find_msgid_in_file h msgid = Inr (buffered_lines st, h\<lparr>pos := position st\<rparr>)))
   \<and> (\<not> (\<exists>line\<in>set (file_lines (drop (pos h) (content h))). is_target msgid line)
      \<and> (\<exists>line\<in>set (file_lines (content h)). is_target msgid line) \<longrightarrow>
      (\<exists>st. find_msgid_loop (content h) msgid (initial_scan (pos h)) = Inr st \<and> wrapped st
         \<and> find_msgid_in_file h msgid = Inr (buffered_lines st, h\<lparr>pos := position st\<rparr>)))
   \<and> (\<not> (\<exists>line\<in>set (file_lines (drop (pos h) (content h))). is_target msgid line)
      \<and> \<not> (\<exists>line\<in>set (file_lines (content h)). is_target msgid line) \<longrightarrow>
      find_msgid_in_file h msgid = Inl EntryNotFoundError)
   \<and> find_msgid_rounds (content h) msgid (initial_scan (pos h))
        \<le> length (file_lines (drop (pos h) (content h))) + length (file_lines (content h)) + 2"
proof -
  define st0 where "st0 = initial_scan (pos h)"
  have p0: "position st0 = pos h" and w0: "\<not> wrapped st0"
    by (simp_all add: st0_def initial_scan_def)
  have pw: "position wrapped_scan = 0" and ww: "wrapped wrapped_scan"
    by (simp_all add: wrapped_scan_def)
  have a: "(\<exists>line\<in>set (file_lines (drop (pos h) (content h))). is_target msgid line) \<longrightarrow>
      (\<exists>st. find_msgid_loop (content h) msgid st0 = Inr st \<and> \<not> wrapped st
         \<and> find_msgid_in_file h msgid = Inr (buffered_lines st, h\<lparr>pos := position st\<rparr>))"
  proof
    assume "\<exists>line\<in>set (file_lines (drop (pos h) (content h))). is_target msgid line"
    then have "\<exists>line\<in>set (file_lines (drop (position st0) (content h))). is_target msgid line"
      using p0 by simp
    from loop_found[OF this] obtain st where
      "find_msgid_loop (content h) msgid st0 = Inr st" "wrapped st = wrapped st0"
      by blast
    then show "\<exists>st. find_msgid_loop (content h) msgid st0 = Inr st \<and> \<not> wrapped st
         \<and> find_msgid_in_file h msgid = Inr (buffered_lines st, h\<lparr>pos := position st\<rparr>)"
      using w0 by (simp add: find_msgid_in_file_def st0_def)
  qed
  have b: "\<not> (\<exists>line\<in>set (file_lines (drop (pos h) (content h))). is_target msgid line)
      \<and> (\<exists>line\<in>set (file_lines (content h)). is_target msgid line) \<longrightarrow>
      (\<exists>st. find_msgid_loop (content h) msgid st0 = Inr st \<and> wrapped st
         \<and> find_msgid_in_file h msgid = Inr (buffered_lines st, h\<lparr>pos := position st\<rparr>))"
  proof
    assume as: "\<not> (\<exists>line\<in>set (file_lines (drop (pos h) (content h))). is_target msgid line)
      \<and> (\<exists>line\<in>set (file_lines (content h)). is_target msgid line)"
    then have "\<not> (\<exists>line\<in>set (file_lines (drop (position st0) (content h))). is_target msgid line)"
      using p0 by simp
    from loop_wraps[OF this w0]
    have e: "find_msgid_loop (content h) msgid st0 = find_msgid_loop (content h) msgid wrapped_scan" .
    have "\<exists>line\<in>set (file_lines (drop (position wrapped_scan) (content h))). is_target msgid line"
      using as pw by simp
    from loop_found[OF this] obtain st where
      "find_msgid_loop (content h) msgid wrapped_scan = Inr st" "wrapped st = wrapped wrapped_scan"
      by blast
    then show "\<exists>st. find_msgid_loop (content h) msgid st0 = Inr st \<and> wrapped st
         \<and> find_msgid_in_file h msgid = Inr (buffered_lines st, h\<lparr>pos := position st\<rparr>)"
      using e ww by (simp add: find_msgid_in_file_def st0_def)
  qed
  have c: "\<not> (\<exists>line\<in>set (file_lines (drop (pos h) (content h))). is_target msgid line)
      \<and> \<not> (\<exists>line\<in>set (file_lines (content h)). is_target msgid line) \<longrightarrow>
      find_msgid_in_file h msgid = Inl EntryNotFoundError"
  proof
    assume as: "\<not> (\<exists>line\<in>set (file_lines (drop (pos h) (content h))). is_target msgid line)
      \<and> \<not> (\<exists>line\<in>set (file_lines (content h)). is_target msgid line)"
    then have "\<not> (\<exists>line\<in>set (file_lines (drop (position st0) (content h))). is_target msgid line)"
      using p0 by simp
    from loop_wraps[OF this w0]
    have e: "find_msgid_loop (content h) msgid st0 = find_msgid_loop (content h) msgid wrapped_scan" .
    have "\<not> (\<exists>line\<in>set (file_lines (drop (position wrapped_scan) (content h))). is_target msgid line)"
      using as pw by simp
    from loop_not_found_wrapped[OF this ww] e
    show "find_msgid_in_file h msgid = Inl EntryNotFoundError"
      by (simp add: find_msgid_in_file_def st0_def)
  qed
  have d: "find_msgid_rounds (content h) msgid st0
        \<le> length (file_lines (drop (pos h) (content h))) + length (file_lines (content h)) + 2"
    using rounds_bound_unwrapped[OF w0, of "content h" msgid] p0 by simp
  show ?thesis using a b c d unfolding st0_def by (intro conjI)
qed

theorem find_msgid_in_file_wraps_once_witness:
  "(\<exists>st. find_msgid_loop example_catalog ''hello'' (initial_scan 91) = Inr st \<and> wrapped st)
   \<and> find_msgid_in_file \<lparr>content = example_catalog, pos = 91\<rparr> ''hello''
       = Inr ([''\<newline>'', ''#: lib/a.ex:1\<newline>''], \<lparr>content = example_catalog, pos = 49\<rparr>)
   \<and> find_msgid_in_file \<lparr>content = example_catalog, pos = 91\<rparr> ''missing'' = Inl EntryNotFoundError
   \<and> find_msgid_rounds example_catalog ''missing'' (initial_scan 91) \<le> 2 + 11 + 2"
proof -
  define h where "h = \<lparr>content = example_catalog, pos = 91\<rparr>"
  have hp: "pos h = 91" "content h = example_catalog" by (simp_all add: h_def)
  have h1: "\<not> (\<exists>line\<in>set (file_lines (drop (pos h) (content h))). is_target ''hello'' line)
      \<and> (\<exists>line\<in>set (file_lines (content h)). is_target ''hello'' line)"
    unfolding hp by code_simp
  have h2: "\<not> (\<exists>line\<in>set (file_lines (drop (pos h) (content h))). is_target ''missing'' line)
      \<and> \<not> (\<exists>line\<in>set (file_lines (content h)). is_target ''missing'' line)"
    unfolding hp by code_simp
  have l: "length (file_lines (drop (pos h) (content h))) = 2" "length (file_lines (content h)) = 11"
    unfolding hp by code_simp+
  have a: "\<exists>st. find_msgid_loop example_catalog ''hello'' (initial_scan 91) = Inr st \<and> wrapped st"
    using find_msgid_in_file_wraps_once[of h "''hello''"] h1 unfolding hp by blast
  have b: "find_msgid_in_file h ''missing'' = Inl EntryNotFoundError"
    using find_msgid_in_file_wraps_once[of h "''missing''"] h2 by blast
  have c: "find_msgid_rounds example_catalog ''missing'' (initial_scan 91) \<le> 2 + 11 + 2"
    using find_msgid_in_file_wraps_once[of h "''missing''"] l unfolding hp by simp
  have d: "find_msgid_in_file \<lparr>content = example_catalog, pos = 91\<rparr> ''hello''
       = Inr ([''\<newline>'', ''#: lib/a.ex:1\<newline>''], \<lparr>content = example_catalog, pos = 49\<rparr>)"
    by code_simp
  show ?thesis using a b c d unfolding h_def by (intro conjI)
qed

section \<open>The catalog rewriter\<close>

declare write_updated_entry_loop.simps [simp del]

text \<open>
  A line that the rewriter consumes (a field line or a continuation-string line); what
  one round writes for such a line, or the exception it raises; and the run of such
  lines from the cursor on.
\<close>

definition is_entry_line :: "string \<Rightarrow> bool" where
  "is_entry_line line \<longleftrightarrow> entry_field_match line \<noteq> None \<or> extra_string_match line"

definition rewritten_line ::
  "string list option \<Rightarrow> (string \<rightharpoonup> nat) option \<Rightarrow> string \<Rightarrow> error + string" where
  "rewritten_line row column_mapping line =
     (case (entry_field_match line, column_mapping) of
        (Some (field, val), Some cm) \<Rightarrow>
          (case cm field of
             None \<Rightarrow> Inl (KeyError field)
           | Some i \<Rightarrow>
               (case row of
                  None \<Rightarrow> Inl TypeError
                | Some cells \<Rightarrow>
                    if i < length cells then Inr (field @ '' \"'' @ cells ! i @ ''\"\<newline>'')
                    else Inl IndexError))
      | _ \<Rightarrow> Inr line)"

definition entry_block :: "handles \<Rightarrow> string list" where
  "entry_block h =
     takeWhile is_entry_line (file_lines (drop (pos (read_handle h)) (content (read_handle h))))"

lemma write_step_entry_line:
  assumes "line = readline_of (drop (pos (read_handle h)) (content (read_handle h)))"
    and "is_entry_line line"
  shows "write_entry_step row column_mapping h =
    (case rewritten_line row column_mapping line of
       Inl e \<Rightarrow> Raise e
     | Inr out \<Rightarrow> Continue (h\<lparr>read_handle := (read_handle h)\<lparr>pos := pos (read_handle h) + length line\<rparr>,
                              write_handle := write_handle h @ out\<rparr>))"
  using assms field_not_extra[of line]
  unfolding write_entry_step_def rewritten_line_def is_entry_line_def Let_def
  by (auto split: option.splits)

lemma write_step_other_line:
  assumes "\<not> is_entry_line (readline_of (drop (pos (read_handle h)) (content (read_handle h))))"
  shows "write_entry_step row column_mapping h = Return h"
  using assms unfolding write_entry_step_def is_entry_line_def Let_def
  by (auto split: option.splits)

lemma not_entry_line_empty: "\<not> is_entry_line []"
  by (simp add: is_entry_line_def entry_field_match_empty extra_string_match_empty)

lemma write_loop_block:
  "write_updated_entry_loop row column_mapping h =
     (case map_result (rewritten_line row column_mapping) (entry_block h) of
        Inl e \<Rightarrow> Inl e
      | Inr outs \<Rightarrow>
          Inr (h\<lparr>read_handle := (read_handle h)\<lparr>pos := pos (read_handle h) + length (concat (entry_block h))\<rparr>,
                write_handle := write_handle h @ concat outs\<rparr>))"
proof (induction "file_lines (drop (pos (read_handle h)) (content (read_handle h)))" arbitrary: h)
  case Nil
  have e: "readline_of (drop (pos (read_handle h)) (content (read_handle h))) = []"
  proof (rule ccontr)
    assume "readline_of (drop (pos (read_handle h)) (content (read_handle h))) \<noteq> []"
    from file_lines_drop[OF this] show False using Nil.hyps by simp
  qed
  have "write_entry_step row column_mapping h = Return h"
    using write_step_other_line e not_entry_line_empty by simp
  moreover have "entry_block h = []" using Nil.hyps by (simp add: entry_block_def)
  ultimately show ?case by (subst write_updated_entry_loop.simps) simp
next
  case (Cons line rest)
  define rh where "rh = read_handle h"
  have ne: "readline_of (drop (pos rh) (content rh)) \<noteq> []"
    using Cons.hyps(2) file_lines_eof unfolding rh_def by fastforce
  note fl = file_lines_drop[OF ne]
  have line: "line = readline_of (drop (pos rh) (content rh))"
    and rest: "rest = file_lines (drop (pos rh + length line) (content rh))"
    using Cons.hyps(2) fl unfolding rh_def by simp_all
  show ?case
  proof (cases "is_entry_line line")
    case False
    then have "write_entry_step row column_mapping h = Return h"
      using write_step_other_line line unfolding rh_def by simp
    moreover have "entry_block h = []"
      using False Cons.hyps(2)[symmetric] by (simp add: entry_block_def)
    ultimately show ?thesis by (subst write_updated_entry_loop.simps) simp
  next
    case True
    have blk: "entry_block h = line # takeWhile is_entry_line rest"
      using True Cons.hyps(2)[symmetric] by (simp add: entry_block_def)
    show ?thesis
    proof (cases "rewritten_line row column_mapping line")
      case (Inl e)
      then have "write_entry_step row column_mapping h = Raise e"
        using write_step_entry_line[OF line[unfolded rh_def] True] by simp
      then show ?thesis using blk Inl by (subst write_updated_entry_loop.simps) simp
    next
      case (Inr out)
      define h1 where "h1 = h\<lparr>read_handle := (read_handle h)\<lparr>pos := pos (read_handle h) + length line\<rparr>,
                              write_handle := write_handle h @ out\<rparr>"
      have s: "write_entry_step row column_mapping h = Continue h1"
        using write_step_entry_line[OF line[unfolded rh_def] True] Inr by (simp add: h1_def)
      have r1: "rest = file_lines (drop (pos (read_handle h1)) (content (read_handle h1)))"
        using rest by (simp add: h1_def rh_def)
      have b1: "entry_block h1 = takeWhile is_entry_line rest"
        using r1 by (simp add: entry_block_def)
      have "write_updated_entry_loop row column_mapping h = write_updated_entry_loop row column_mapping h1"
        using s by (subst write_updated_entry_loop.simps) simp
      also note Cons.hyps(1)[OF r1]
      finally show ?thesis
        using blk b1 Inr by (auto simp: h1_def split: sum.splits)
    qed
  qed
qed

lemma write_loop_stops:
  "write_updated_entry_loop row column_mapping h = Inr h' \<Longrightarrow>
     \<not> is_entry_line (readline_of (drop (pos (read_handle h')) (content (read_handle h'))))"
proof (induction row column_mapping h rule: write_updated_entry_loop.induct)
  case (1 row column_mapping h)
  show ?case
  proof (cases "write_entry_step row column_mapping h")
    case (Continue h1)
    then have "write_updated_entry_loop row column_mapping h1 = Inr h'"
      using "1.prems" by (subst (asm) write_updated_entry_loop.simps) simp
    then show ?thesis using "1.IH"[OF Continue] by simp
  next
    case (Return h1)
    then have eq: "h1 = h'"
      using "1.prems" by (subst (asm) write_updated_entry_loop.simps) simp
    have "\<not> is_entry_line (readline_of (drop (pos (read_handle h)) (content (read_handle h))))"
    proof
      assume "is_entry_line (readline_of (drop (pos (read_handle h)) (content (read_handle h))))"
      from write_step_entry_line[OF refl this, of row column_mapping] Return show False
        by (auto split: sum.splits)
    qed
    moreover from this have "h1 = h" using write_step_other_line Return by fastforce
    ultimately show ?thesis using eq by simp
  next
    case (Raise e)
    then show ?thesis using "1.prems" by (subst (asm) write_updated_entry_loop.simps) simp
  qed
qed

text \<open>
  Claim C2, as the program has it. \<open>write_updated_entry_to_file\<close> consumes exactly the
  run of field lines and continuation-string lines that starts at the read cursor.
  When no line of the run raises, it appends to the output, in order, what each line
  becomes, and leaves the read cursor at the beginning of the first line behind the
  run, a line that matches neither pattern (or the end of the file). A
  continuation-string line is copied as it is. With a row and a column mapping, a
  field line becomes \<^verbatim>\<open>field "row[column_mapping[field]]"\<close> and a newline; a field
  that the mapping lacks raises \<open>KeyError\<close> and an index outside the row raises
  \<open>IndexError\<close>, and the first exception ends the rewrite. Without a column mapping
  every line of the run is copied as it is.
\<close>

theorem write_updated_entry_rewrites_block:
  "write_updated_entry_to_file h row column_mapping =
     (case map_result (rewritten_line row column_mapping) (entry_block h) of
        Inl e \<Rightarrow> Inl e
      | Inr outs \<Rightarrow>
          Inr (h\<lparr>read_handle := (read_handle h)\<lparr>pos := pos (read_handle h) + length (concat (entry_block h))\<rparr>,
                write_handle := write_handle h @ concat outs\<rparr>))
   \<and> (\<forall>h'. write_updated_entry_to_file h row column_mapping = Inr h' \<longrightarrow>
         \<not> is_entry_line (readline_of (drop (pos (read_handle h')) (content (read_handle h')))))
   \<and> (\<forall>line. extra_string_match line \<longrightarrow> rewritten_line row column_mapping line = Inr line)
   \<and> (\<forall>line field v cm cells. entry_field_match line = Some (field, v) \<longrightarrow>
         rewritten_line (Some cells) (Some cm) line =
           (case cm field of
              None \<Rightarrow> Inl (KeyError field)
            | Some i \<Rightarrow> if i < length cells then Inr (field @ '' \"'' @ cells ! i @ ''\"\<newline>'')
                        else Inl IndexError))
   \<and> (\<forall>line. rewritten_line row None line = Inr line)"
proof -
  have a: "\<forall>line. extra_string_match line \<longrightarrow> rewritten_line row column_mapping line = Inr line"
    using field_not_extra by (auto simp: rewritten_line_def split: option.splits)
  have b: "\<forall>line field v cm cells. entry_field_match line = Some (field, v) \<longrightarrow>
         rewritten_line (Some cells) (Some cm) line =
           (case cm field of
              None \<Rightarrow> Inl (KeyError field)
            | Some i \<Rightarrow> if i < length cells then Inr (field @ '' \"'' @ cells ! i @ ''\"\<newline>'')
                        else Inl IndexError)"
    by (auto simp: rewritten_line_def split: option.splits)
  have c: "\<forall>line. rewritten_line row None line = Inr line"
    by (simp add: rewritten_line_def split: option.splits)
  show ?thesis
    unfolding write_updated_entry_to_file_def
    using write_loop_block[of row column_mapping h] write_loop_stops[of row column_mapping h] a b c
    by (intro conjI allI impI) auto
qed

theorem write_updated_entry_rewrites_block_witness:
  "write_updated_entry_to_file
      \<lparr>read_handle = \<lparr>content = example_catalog, pos = 49\<rparr>, write_handle = ''# c\<newline>''\<rparr>
      (Some [''hello'', ''hallo'']) (Some [''msgid'' \<mapsto> 0, ''msgstr'' \<mapsto> 1])
    = Inr \<lparr>read_handle = \<lparr>content = example_catalog, pos = 76\<rparr>,
           write_handle = ''# c\<newline>msgid \"hello\"\<newline>msgstr \"hallo\"\<newline>''\<rparr>
   \<and> is_entry_line (readline_of (drop 76 example_catalog)) = False"
proof -
  have r: "write_updated_entry_to_file
      \<lparr>read_handle = \<lparr>content = example_catalog, pos = 49\<rparr>, write_handle = ''# c\<newline>''\<rparr>
      (Some [''hello'', ''hallo'']) (Some [''msgid'' \<mapsto> 0, ''msgstr'' \<mapsto> 1])
    = Inr \<lparr>read_handle = \<lparr>content = example_catalog, pos = 76\<rparr>,
           write_handle = ''# c\<newline>msgid \"hello\"\<newline>msgstr \"hallo\"\<newline>''\<rparr>"
    by code_simp
  from write_updated_entry_rewrites_block[of
      "\<lparr>read_handle = \<lparr>content = example_catalog, pos = 49\<rparr>, write_handle = ''# c\<newline>''\<rparr>"
      "Some [''hello'', ''hallo'']" "Some [''msgid'' \<mapsto> 0, ''msgstr'' \<mapsto> 1]"] r
  have "\<not> is_entry_line (readline_of (drop (pos (read_handle
      \<lparr>read_handle = \<lparr>content = example_catalog, pos = 76\<rparr>,
           write_handle = ''# c\<newline>msgid \"hello\"\<newline>msgstr \"hallo\"\<newline>''\<rparr>))
      (content (read_handle \<lparr>read_handle = \<lparr>content = example_catalog, pos = 76\<rparr>,
           write_handle = ''# c\<newline>msgid \"hello\"\<newline>msgstr \"hallo\"\<newline>''\<rparr>))))"
    by blast
  then show ?thesis using r by simp
qed

text \<open>
  The claim as stated lets a recognized field without a mapping pass through
  unchanged. On the entry \<open>hello\<close> of the example catalog, with a mapping that has
  \<open>msgid\<close> only, the rewrite raises \<open>KeyError\<close> at the \<open>msgstr\<close> line.
\<close>

theorem write_updated_entry_unmapped_field_counterexample:
  "write_updated_entry_to_file
      \<lparr>read_handle = \<lparr>content = example_catalog, pos = 49\<rparr>, write_handle = []\<rparr>
      (Some [''hello'', ''hallo'']) (Some [''msgid'' \<mapsto> 0])
    = Inl (KeyError ''msgstr'')"
  by code_simp

section \<open>An exception during a pull\<close>

text \<open>
  Between two worlds, no file has been created, changed or removed but the temporary
  files of the catalogs of the locale.
\<close>

definition only_tmp_changed :: "(string \<rightharpoonup> string) \<Rightarrow> world \<Rightarrow> world \<Rightarrow> bool" where
  "only_tmp_changed file_path_map w w' \<longleftrightarrow>
     (\<forall>p. (\<forall>q\<in>ran file_path_map. p \<noteq> q @ ''.tmp'') \<longrightarrow> files w' p = files w p)"

lemma only_tmp_changed_refl: "only_tmp_changed fpm w w"
  by (simp add: only_tmp_changed_def)

lemma only_tmp_changed_trans:
  "only_tmp_changed fpm w w1 \<Longrightarrow> only_tmp_changed fpm w1 w2 \<Longrightarrow> only_tmp_changed fpm w w2"
  by (simp add: only_tmp_changed_def)

lemma only_tmp_changed_files_eq:
  "files w1 = files w \<Longrightarrow> only_tmp_changed fpm w w1"
  by (simp add: only_tmp_changed_def)

lemma open_handle_pair_frame:
  assumes "open_handle_pair target w = (r, w1)" and "target \<in> ran fpm"
  shows "only_tmp_changed fpm w w1"
proof -
  have "files w1 = files w \<or> files w1 = (files w)(target @ ''.tmp'' \<mapsto> [])"
    using assms(1) unfolding open_handle_pair_def Let_def
    by (auto split: option.splits sum.splits prod.splits)
  then show ?thesis using assms(2) by (auto simp: only_tmp_changed_def)
qed

lemma process_row_frame:
  assumes "process_row fpm cm tmpl fcol mcol row fhm w = (r, fhm', w')"
  shows "only_tmp_changed fpm w w'"
proof (cases "fcol < length row")
  case False
  then show ?thesis using assms by (simp add: process_row_def only_tmp_changed_refl)
next
  case True
  show ?thesis
  proof (cases "extract_string_assigns tmpl (row ! fcol)")
    case (Inl e)
    then show ?thesis using assms True by (simp add: process_row_def only_tmp_changed_refl)
  next
    case (Inr assigns)
    show ?thesis
    proof (cases "map_of assigns ''file_name''")
      case None
      then show ?thesis using assms True Inr by (simp add: process_row_def only_tmp_changed_refl)
    next
      case (Some base_filename)
      show ?thesis
      proof (cases "fpm base_filename")
        case None
        then show ?thesis
          using assms True Inr Some by (simp add: process_row_def only_tmp_changed_refl)
      next
        case target: (Some target_file)
        then have tr: "target_file \<in> ran fpm" by (auto simp: ran_def)
        obtain r1 w1 where o: "(case map_of fhm base_filename of
                             Some h \<Rightarrow> (Inr h, w)
                           | None \<Rightarrow> open_handle_pair target_file w) = (r1, w1)"
          by (cases "(case map_of fhm base_filename of
                             Some h \<Rightarrow> (Inr h, w)
                           | None \<Rightarrow> open_handle_pair target_file w)") auto
        have f1: "only_tmp_changed fpm w w1"
          using o open_handle_pair_frame[OF _ tr] only_tmp_changed_refl
          by (auto split: option.splits)
        have "w' = w1"
          using assms True Inr Some target o unfolding process_row_def Let_def
          by (auto split: sum.splits if_splits prod.splits)
        then show ?thesis using f1 by simp
      qed
    qed
  qed
qed

lemma process_rows_frame:
  "process_rows fpm cm tmpl fcol mcol data fhm w = (r, fhm', w') \<Longrightarrow> only_tmp_changed fpm w w'"
proof (induction data arbitrary: fhm w)
  case Nil
  then show ?case by (simp add: only_tmp_changed_refl)
next
  case (Cons row data)
  show ?case
  proof (cases "list_ex (\<lambda>cell. cell \<noteq> []) row")
    case False
    then show ?thesis using Cons by simp
  next
    case True
    obtain r1 fhm1 w1 where p: "process_row fpm cm tmpl fcol mcol row fhm w = (r1, fhm1, w1)"
      by (cases "process_row fpm cm tmpl fcol mcol row fhm w") auto
    have f1: "only_tmp_changed fpm w w1" by (rule process_row_frame[OF p])
    show ?thesis
    proof (cases r1)
      case None
      then have "process_rows fpm cm tmpl fcol mcol data fhm1 w1 = (r, fhm', w')"
        using Cons.prems True p by simp
      from Cons.IH[OF this] f1 show ?thesis by (rule only_tmp_changed_trans[rotated])
    next
      case (Some e)
      then have "w' = w1" using Cons.prems True p by simp
      then show ?thesis using f1 by simp
    qed
  qed
qed

lemma process_chunk_frame:
  "process_chunk fpm fhm data cm tmpl w = (r, fhm', w') \<Longrightarrow> only_tmp_changed fpm w w'"
  unfolding process_chunk_def
  by (auto split: option.splits simp: only_tmp_changed_refl dest: process_rows_frame)

lemma pull_chunks_frame:
  "pull_chunks fuel service sh chunk_size cs ce fpm cm tmpl row_start fhm w = Some (r, fhm', w')
     \<Longrightarrow> only_tmp_changed fpm w w'"
proof (induction fuel arbitrary: row_start fhm w)
  case 0
  then show ?case by simp
next
  case (Suc fuel)
  define range_name where
    "range_name = generate_range_name sh row_start (row_start + chunk_size - 1) cs ce"
  define w1 where "w1 = w\<lparr>requests := requests w @ [range_name]\<rparr>"
  have f0: "only_tmp_changed fpm w w1"
    by (rule only_tmp_changed_files_eq) (simp add: w1_def)
  show ?case
  proof (cases "service range_name")
    case (Inl e)
    then have "w' = w1" using Suc.prems by (simp add: Let_def range_name_def w1_def)
    then show ?thesis using f0 by simp
  next
    case (Inr vals)
    show ?thesis
    proof (cases vals)
      case None
      then have "w' = w1" using Suc.prems Inr by (simp add: Let_def range_name_def w1_def)
      then show ?thesis using f0 by simp
    next
      case (Some data)
      show ?thesis
      proof (cases "length data = 0")
        case True
        then have "w' = w1"
          using Suc.prems Inr Some by (simp add: Let_def range_name_def w1_def)
        then show ?thesis using f0 by simp
      next
        case False
        obtain r2 fhm2 w2 where p: "process_chunk fpm fhm data cm tmpl w1 = (r2, fhm2, w2)"
          by (cases "process_chunk fpm fhm data cm tmpl w1") auto
        have f1: "only_tmp_changed fpm w w2"
          using f0 process_chunk_frame[OF p] by (rule only_tmp_changed_trans)
        show ?thesis
        proof (cases r2)
          case None
          then have "pull_chunks fuel service sh chunk_size cs ce fpm cm tmpl
              (row_start + chunk_size - 1 + 1) fhm2 w2 = Some (r, fhm', w')"
            using Suc.prems Inr Some False p
            by (simp add: Let_def range_name_def[symmetric] w1_def[symmetric])
          from f1 Suc.IH[OF this] show ?thesis by (rule only_tmp_changed_trans)
        next
          case (Some e)
          then have "w' = w2"
            using Suc.prems Inr \<open>vals = Some data\<close> False p
            by (simp add: Let_def range_name_def[symmetric] w1_def[symmetric])
          then show ?thesis using f1 by simp
        qed
      qed
    qed
  qed
qed

lemma pull_rows_frame:
  assumes "pull_rows fuel cfg service fpm settings w = Some (r, fhm, w')"
  shows "only_tmp_changed fpm w w'"
  using assms unfolding pull_rows_def Let_def
  by (auto split: sum.splits option.splits if_splits
      simp: only_tmp_changed_refl dest: pull_chunks_frame)

section \<open>The column mapping of a pull\<close>

text \<open>
  A column names the file when it has no key \<open>fields\<close> and its \<open>static\<close> text contains
  \<open>{file_name}\<close>: these are the columns at which the loop of \<open>get_column_mapping\<close>
  sets the reserved key.
\<close>

definition is_file_name_column :: "column \<Rightarrow> bool" where
  "is_file_name_column c \<longleftrightarrow>
     col_fields c = None
     \<and> (case col_static c of Some s \<Rightarrow> sublist ''{file_name}'' s | None \<Rightarrow> False)"

lemma foldl_upd_other:
  "k \<notin> set fs \<Longrightarrow> foldl (\<lambda>r field. r(field \<mapsto> i)) ret fs k = ret k"
  by (induction fs arbitrary: ret) auto

lemma column_step_fields:
  "col_fields c = Some fs \<Longrightarrow>
     get_column_mapping_loop i (c # cs) ret found =
       get_column_mapping_loop (Suc i) cs (foldl (\<lambda>r field. r(field \<mapsto> i)) ret fs) found"
  by simp

lemma column_step_file_name:
  "is_file_name_column c \<Longrightarrow>
     get_column_mapping_loop i (c # cs) ret found =
       get_column_mapping_loop (Suc i) cs (ret(''_file_name'' \<mapsto> i)) True"
  by (auto simp: is_file_name_column_def split: option.splits)

lemma column_step_other:
  "col_fields c = None \<Longrightarrow> \<not> is_file_name_column c \<Longrightarrow>
     get_column_mapping_loop i (c # cs) ret found = get_column_mapping_loop (Suc i) cs ret found"
  by (auto simp: is_file_name_column_def split: option.splits)

lemma fields_not_file_name: "col_fields c = Some fs \<Longrightarrow> \<not> is_file_name_column c"
  by (simp add: is_file_name_column_def)

lemma column_loop_found:
  "snd (get_column_mapping_loop i cols ret found) \<longleftrightarrow>
     found \<or> (\<exists>c\<in>set cols. is_file_name_column c)"
proof (induction cols arbitrary: i ret found)
  case Nil
  then show ?case by simp
next
  case (Cons c cs)
  show ?case
  proof (cases "col_fields c")
    case (Some fs)
    show ?thesis
      unfolding column_step_fields[OF Some] Cons.IH
      using fields_not_file_name[OF Some] by simp
  next
    case None
    show ?thesis
    proof (cases "is_file_name_column c")
      case True
      show ?thesis unfolding column_step_file_name[OF True] Cons.IH using True by simp
    next
      case False
      show ?thesis unfolding column_step_other[OF None False] Cons.IH using False by simp
    qed
  qed
qed

definition last_file_name_column :: "column list \<Rightarrow> nat \<Rightarrow> bool" where
  "last_file_name_column cols k \<longleftrightarrow>
     k < length cols \<and> is_file_name_column (cols ! k)
     \<and> (\<forall>j. k < j \<and> j < length cols \<longrightarrow> \<not> is_file_name_column (cols ! j))"

lemma last_file_name_column_Cons:
  "last_file_name_column cs k \<Longrightarrow> last_file_name_column (c # cs) (Suc k)"
proof -
  assume a: "last_file_name_column cs k"
  have "\<not> is_file_name_column ((c # cs) ! j)" if lt: "Suc k < j" and len: "j < length (c # cs)" for j
  proof -
    obtain j' where j: "j = Suc j'" using lt by (cases j) auto
    then have "k < j'" "j' < length cs" using lt len by auto
    then show ?thesis using a j by (simp add: last_file_name_column_def)
  qed
  then show ?thesis using a by (simp add: last_file_name_column_def)
qed

lemma last_file_name_column_head:
  "is_file_name_column c \<Longrightarrow> \<not> (\<exists>d\<in>set cs. is_file_name_column d) \<Longrightarrow>
     last_file_name_column (c # cs) 0"
proof -
  assume a: "is_file_name_column c" and b: "\<not> (\<exists>d\<in>set cs. is_file_name_column d)"
  have "\<not> is_file_name_column ((c # cs) ! j)" if lt: "0 < j" and len: "j < length (c # cs)" for j
  proof -
    obtain j' where j: "j = Suc j'" using lt by (cases j) auto
    then have "cs ! j' \<in> set cs" using len by auto
    then show ?thesis using b j by auto
  qed
  then show ?thesis using a by (simp add: last_file_name_column_def)
qed

lemma column_loop_key:
  assumes "\<forall>c\<in>set cols. \<forall>fs. col_fields c = Some fs \<longrightarrow> ''_file_name'' \<notin> set fs"
  shows "(\<not> (\<exists>c\<in>set cols. is_file_name_column c) \<longrightarrow>
           fst (get_column_mapping_loop i cols ret found) ''_file_name'' = ret ''_file_name'')
       \<and> ((\<exists>c\<in>set cols. is_file_name_column c) \<longrightarrow>
           (\<exists>k. last_file_name_column cols k
              \<and> fst (get_column_mapping_loop i cols ret found) ''_file_name'' = Some (i + k)))"
  using assms
proof (induction cols arbitrary: i ret found)
  case Nil
  then show ?case by simp
next
  case (Cons c cs)
  have tl: "\<forall>c\<in>set cs. \<forall>fs. col_fields c = Some fs \<longrightarrow> ''_file_name'' \<notin> set fs"
    using Cons.prems by simp
  note IH = Cons.IH[OF tl]
  have later: "\<exists>k. last_file_name_column (c # cs) k
        \<and> fst (get_column_mapping_loop (Suc i) cs r f) ''_file_name'' = Some (i + k)"
    if "\<exists>d\<in>set cs. is_file_name_column d" for r f
  proof -
    from IH[of "Suc i" r f] that obtain k where
      "last_file_name_column cs k"
      "fst (get_column_mapping_loop (Suc i) cs r f) ''_file_name'' = Some (Suc i + k)"
      by blast
    then have "last_file_name_column (c # cs) (Suc k)
        \<and> fst (get_column_mapping_loop (Suc i) cs r f) ''_file_name'' = Some (i + Suc k)"
      using last_file_name_column_Cons by simp
    then show ?thesis by blast
  qed
  show ?case
  proof (cases "col_fields c")
    case (Some fs)
    have k: "foldl (\<lambda>r field. r(field \<mapsto> i)) ret fs ''_file_name'' = ret ''_file_name''"
      using Cons.prems Some by (simp add: foldl_upd_other)
    have nf: "\<not> is_file_name_column c" by (rule fields_not_file_name[OF Some])
    show ?thesis
      unfolding column_step_fields[OF Some]
      using IH[of "Suc i" "foldl (\<lambda>r field. r(field \<mapsto> i)) ret fs" found] k nf later
      by auto
  next
    case None
    show ?thesis
    proof (cases "is_file_name_column c")
      case True
      show ?thesis
      proof (cases "\<exists>d\<in>set cs. is_file_name_column d")
        case ex: True
        show ?thesis unfolding column_step_file_name[OF True] using later[OF ex] True by auto
      next
        case False
        have "fst (get_column_mapping_loop (Suc i) cs (ret(''_file_name'' \<mapsto> i)) True) ''_file_name''
            = (ret(''_file_name'' \<mapsto> i)) ''_file_name''"
          using IH[of "Suc i" "ret(''_file_name'' \<mapsto> i)" True] False by blast
        also have "\<dots> = Some (i + 0)" by simp
        finally have "fst (get_column_mapping_loop (Suc i) cs (ret(''_file_name'' \<mapsto> i)) True)
            ''_file_name'' = Some (i + 0)" .
        then have "\<exists>k. last_file_name_column (c # cs) k
            \<and> fst (get_column_mapping_loop (Suc i) cs (ret(''_file_name'' \<mapsto> i)) True)
                  ''_file_name'' = Some (i + k)"
          using last_file_name_column_head[OF True False] by (intro exI[of _ 0] conjI)
        moreover have "\<exists>a\<in>set (c # cs). is_file_name_column a" using True by simp
        ultimately show ?thesis
          unfolding column_step_file_name[OF True] by (intro conjI impI) (simp_all only: not_True_eq_False)
      qed
    next
      case False
      show ?thesis
        unfolding column_step_other[OF None False]
        using IH[of "Suc i" ret found] False later by auto
    qed
  qed
qed

lemma get_column_mapping_cases:
  "get_column_mapping cols =
     (if \<exists>c\<in>set cols. is_file_name_column c
      then Inr (fst (get_column_mapping_loop 0 cols Map.empty False))
      else Inl ConfigurationError)"
proof -
  obtain ret found where l: "get_column_mapping_loop 0 cols Map.empty False = (ret, found)"
    by (cases "get_column_mapping_loop 0 cols Map.empty False") auto
  have "found \<longleftrightarrow> (\<exists>c\<in>set cols. is_file_name_column c)"
    using column_loop_found[of 0 cols Map.empty False] l by simp
  then show ?thesis using l by (simp add: get_column_mapping_def)
qed

text \<open>
  Claim C8, as the program has it. \<open>get_column_mapping\<close> fails, and then with the
  configuration error, exactly when no column without the key \<open>fields\<close> has a static
  template that contains \<open>{file_name}\<close>. When it succeeds and no field is itself
  named \<open>_file_name\<close>, the reserved key is the index of the last such column. In
  \<open>pull_by_locale\<close> the failure ends the pull before any request is made and before
  any file is opened: the state of the files and the log of the requests are
  unchanged.
\<close>

theorem get_column_mapping_fails_iff:
  "(get_column_mapping cols = Inl ConfigurationError \<longleftrightarrow>
      \<not> (\<exists>c\<in>set cols. is_file_name_column c))
   \<and> (\<forall>e. get_column_mapping cols = Inl e \<longrightarrow> e = ConfigurationError)
   \<and> (\<forall>ret. get_column_mapping cols = Inr ret
          \<and> (\<forall>c\<in>set cols. \<forall>fs. col_fields c = Some fs \<longrightarrow> ''_file_name'' \<notin> set fs) \<longrightarrow>
          (\<exists>k. ret ''_file_name'' = Some k \<and> k < length cols \<and> is_file_name_column (cols ! k)
             \<and> (\<forall>j. k < j \<and> j < length cols \<longrightarrow> \<not> is_file_name_column (cols ! j))))
   \<and> (\<forall>e. get_column_mapping (columns settings) = Inl e \<longrightarrow>
          pull_by_locale fuel cfg service fpm settings w = Some (Some e, w))"
proof -
  have a: "get_column_mapping cols = Inl ConfigurationError \<longleftrightarrow>
      \<not> (\<exists>c\<in>set cols. is_file_name_column c)"
    by (simp add: get_column_mapping_cases)
  have b: "\<forall>e. get_column_mapping cols = Inl e \<longrightarrow> e = ConfigurationError"
    by (simp add: get_column_mapping_cases)
  have c: "\<forall>ret. get_column_mapping cols = Inr ret
          \<and> (\<forall>c\<in>set cols. \<forall>fs. col_fields c = Some fs \<longrightarrow> ''_file_name'' \<notin> set fs) \<longrightarrow>
          (\<exists>k. ret ''_file_name'' = Some k \<and> k < length cols \<and> is_file_name_column (cols ! k)
             \<and> (\<forall>j. k < j \<and> j < length cols \<longrightarrow> \<not> is_file_name_column (cols ! j)))"
  proof (intro allI impI)
    fix ret
    assume as: "get_column_mapping cols = Inr ret
          \<and> (\<forall>c\<in>set cols. \<forall>fs. col_fields c = Some fs \<longrightarrow> ''_file_name'' \<notin> set fs)"
    then have ex: "\<exists>c\<in>set cols. is_file_name_column c"
      and ret: "ret = fst (get_column_mapping_loop 0 cols Map.empty False)"
      by (auto simp: get_column_mapping_cases split: if_splits)
    from as have nf: "\<forall>c\<in>set cols. \<forall>fs. col_fields c = Some fs \<longrightarrow> ''_file_name'' \<notin> set fs"
      by blast
    from column_loop_key[OF nf, of 0 Map.empty False] ex obtain k where
      "last_file_name_column cols k" "ret ''_file_name'' = Some (0 + k)"
      unfolding ret by blast
    then have "ret ''_file_name'' = Some k \<and> k < length cols \<and> is_file_name_column (cols ! k)
             \<and> (\<forall>j. k < j \<and> j < length cols \<longrightarrow> \<not> is_file_name_column (cols ! j))"
      by (simp add: last_file_name_column_def)
    then show "\<exists>k. ret ''_file_name'' = Some k \<and> k < length cols \<and> is_file_name_column (cols ! k)
             \<and> (\<forall>j. k < j \<and> j < length cols \<longrightarrow> \<not> is_file_name_column (cols ! j))"
      by (rule exI)
  qed
  have d: "\<forall>e. get_column_mapping (columns settings) = Inl e \<longrightarrow>
          pull_by_locale fuel cfg service fpm settings w = Some (Some e, w)"
    by (simp add: pull_by_locale_def pull_rows_def Let_def)
  show ?thesis by (intro conjI a b c d)
qed

lemma ex_file_name_key:
  "map_sum id (\<lambda>ret. ret ''_file_name'') (get_column_mapping pull_example_columns) = Inr (Some 2)"
  by code_simp

text \<open>
  In the example configuration the column \<open>FILE\<close> is the third one, and without it
  the mapping fails.
\<close>

theorem get_column_mapping_fails_iff_witness:
  "(\<exists>ret. get_column_mapping pull_example_columns = Inr ret \<and> ret ''_file_name'' = Some 2)
   \<and> get_column_mapping (take 2 pull_example_columns) = Inl ConfigurationError"
proof -
  have fnc: "is_file_name_column (pull_example_columns ! 2)" by code_simp
  have "pull_example_columns ! 2 \<in> set pull_example_columns"
    by (simp add: pull_example_columns_def)
  then have ex: "\<exists>c\<in>set pull_example_columns. is_file_name_column c" using fnc by blast
  have "get_column_mapping pull_example_columns \<noteq> Inl ConfigurationError"
    using get_column_mapping_fails_iff[of pull_example_columns] ex by blast
  moreover have "\<forall>e. get_column_mapping pull_example_columns = Inl e \<longrightarrow> e = ConfigurationError"
    using get_column_mapping_fails_iff[of pull_example_columns] by blast
  ultimately obtain ret where r: "get_column_mapping pull_example_columns = Inr ret"
    by (cases "get_column_mapping pull_example_columns") auto
  then have "ret ''_file_name'' = Some 2" using ex_file_name_key by simp
  then have 1: "\<exists>ret. get_column_mapping pull_example_columns = Inr ret \<and> ret ''_file_name'' = Some 2"
    using r by blast
  have "\<not> (\<exists>c\<in>set (take 2 pull_example_columns). is_file_name_column c)" by code_simp
  then have 2: "get_column_mapping (take 2 pull_example_columns) = Inl ConfigurationError"
    using get_column_mapping_fails_iff[of "take 2 pull_example_columns"] by blast
  show ?thesis using 1 2 by (rule conjI)
qed

text \<open>
  The claim as stated lets the mapping succeed whenever a static template contains the
  placeholder. A column that also has the key \<open>fields\<close> is left by \<open>continue\<close>
  before its static template is looked at, so the mapping fails although the template
  contains \<open>{file_name}\<close>.
\<close>

theorem get_column_mapping_fields_and_static_counterexample:
  "get_column_mapping
      [\<lparr>col_header = Some ''FILE'', col_static = Some ''{file_name}'', col_fields = Some [''msgid'']\<rparr>]
     = Inl ConfigurationError
   \<and> sublist ''{file_name}'' ''{file_name}''"
  by (simp add: get_column_mapping_def)

lemma old_not_tmp: "q @ ''.old'' \<noteq> q' @ ''.tmp''"
proof
  assume "q @ ''.old'' = q' @ ''.tmp''"
  then have "last (q @ ''.old'') = last (q' @ ''.tmp'')" by simp
  then show False by simp
qed

text \<open>How an exception travels from a row to the result of the pull.\<close>

lemma pull_rows_mapping_error:
  "get_column_mapping (columns settings) = Inl e \<Longrightarrow>
     pull_rows fuel cfg service fpm settings w = Some (Some e, [], w)"
  by (simp add: pull_rows_def Let_def)

lemma pull_rows_chunks:
  "get_column_mapping (columns settings) = Inr cm \<Longrightarrow> cm ''_file_name'' = Some k \<Longrightarrow>
   k < length (columns settings) \<Longrightarrow> col_static (columns settings ! k) = Some tmpl \<Longrightarrow>
     pull_rows fuel cfg service fpm settings w =
       pull_chunks fuel service (sheet settings) (pull_chunk_size cfg)
         (get_column_string (1 + column_offset settings))
         (get_column_string (1 + column_offset settings + int (length (columns settings)) - 1))
         fpm cm tmpl (1 + row_offset settings + 1) [] w"
  by (simp add: pull_rows_def Let_def)

lemma pull_chunks_service_error:
  "service (generate_range_name sh rs (rs + n - 1) cs ce) = Inl e \<Longrightarrow>
     pull_chunks (Suc fuel) service sh n cs ce fpm cm tmpl rs fhm w =
       Some (Some e, fhm, w\<lparr>requests := requests w @ [generate_range_name sh rs (rs + n - 1) cs ce]\<rparr>)"
  by (simp add: Let_def)

lemma pull_chunks_chunk_error:
  "service (generate_range_name sh rs (rs + n - 1) cs ce) = Inr (Some data) \<Longrightarrow> data \<noteq> [] \<Longrightarrow>
   process_chunk fpm fhm data cm tmpl
      (w\<lparr>requests := requests w @ [generate_range_name sh rs (rs + n - 1) cs ce]\<rparr>)
     = (Some e, fhm', w') \<Longrightarrow>
     pull_chunks (Suc fuel) service sh n cs ce fpm cm tmpl rs fhm w = Some (Some e, fhm', w')"
  by (simp add: Let_def)

lemma pull_chunks_chunk_done:
  "service (generate_range_name sh rs (rs + n - 1) cs ce) = Inr (Some data) \<Longrightarrow> data \<noteq> [] \<Longrightarrow>
   process_chunk fpm fhm data cm tmpl
      (w\<lparr>requests := requests w @ [generate_range_name sh rs (rs + n - 1) cs ce]\<rparr>)
     = (None, fhm', w') \<Longrightarrow>
     pull_chunks (Suc fuel) service sh n cs ce fpm cm tmpl rs fhm w =
       pull_chunks fuel service sh n cs ce fpm cm tmpl (rs + n - 1 + 1) fhm' w'"
  by (simp add: Let_def)

lemma process_rows_append:
  "process_rows fpm cm tmpl fcol mcol pre fhm w = (None, fhm1, w1) \<Longrightarrow>
     process_rows fpm cm tmpl fcol mcol (pre @ rest) fhm w =
       process_rows fpm cm tmpl fcol mcol rest fhm1 w1"
proof (induction pre arbitrary: fhm w)
  case Nil
  then show ?case by simp
next
  case (Cons row pre)
  show ?case
  proof (cases "list_ex (\<lambda>cell. cell \<noteq> []) row")
    case False
    then show ?thesis using Cons by simp
  next
    case True
    obtain r fhm' w' where pr: "process_row fpm cm tmpl fcol mcol row fhm w = (r, fhm', w')"
      by (cases "process_row fpm cm tmpl fcol mcol row fhm w") auto
    show ?thesis
    proof (cases r)
      case None
      then have "process_rows fpm cm tmpl fcol mcol pre fhm' w' = (None, fhm1, w1)"
        using Cons.prems True pr by simp
      from Cons.IH[OF this] show ?thesis using True pr None by simp
    next
      case (Some e)
      then show ?thesis using Cons.prems True pr by simp
    qed
  qed
qed

lemma process_chunk_row_error:
  assumes "cm ''_file_name'' = Some fcol" and "cm ''msgid'' = Some mcol"
    and "process_rows fpm cm tmpl fcol mcol pre fhm w = (None, fhm1, w1)"
    and "list_ex (\<lambda>cell. cell \<noteq> []) row"
    and "process_row fpm cm tmpl fcol mcol row fhm1 w1 = (Some e, fhm2, w2)"
  shows "process_chunk fpm fhm (pre @ row # post) cm tmpl w = (Some e, fhm2, w2)"
  using assms(1,2,4,5) process_rows_append[OF assms(3), of "row # post"]
  by (simp add: process_chunk_def)

lemma process_row_extract_error:
  "fcol < length row \<Longrightarrow> extract_string_assigns tmpl (row ! fcol) = Inl e \<Longrightarrow>
     process_row fpm cm tmpl fcol mcol row fhm w = (Some e, fhm, w)"
  by (simp add: process_row_def)

lemma process_row_unknown_file:
  "fcol < length row \<Longrightarrow> extract_string_assigns tmpl (row ! fcol) = Inr assigns \<Longrightarrow>
   map_of assigns ''file_name'' = Some base \<Longrightarrow> fpm base = None \<Longrightarrow>
     process_row fpm cm tmpl fcol mcol row fhm w = (Some (KeyError base), fhm, w)"
  by (simp add: process_row_def)

lemma process_row_open_error:
  "fcol < length row \<Longrightarrow> extract_string_assigns tmpl (row ! fcol) = Inr assigns \<Longrightarrow>
   map_of assigns ''file_name'' = Some base \<Longrightarrow> fpm base = Some target \<Longrightarrow>
   map_of fhm base = None \<Longrightarrow> open_handle_pair target w = (Inl e, w1) \<Longrightarrow>
     process_row fpm cm tmpl fcol mcol row fhm w = (Some e, fhm, w1)"
  by (simp add: process_row_def)

lemma process_row_locator_error:
  "fcol < length row \<Longrightarrow> extract_string_assigns tmpl (row ! fcol) = Inr assigns \<Longrightarrow>
   map_of assigns ''file_name'' = Some base \<Longrightarrow> fpm base = Some target \<Longrightarrow>
   (case map_of fhm base of Some h \<Rightarrow> (Inr h, w) | None \<Rightarrow> open_handle_pair target w) = (Inr h, w1) \<Longrightarrow>
   mcol < length row \<Longrightarrow> find_msgid_in_file (read_handle h) (row ! mcol) = Inl e \<Longrightarrow>
     process_row fpm cm tmpl fcol mcol row fhm w = (Some e, AList.update base h fhm, w1)"
  by (simp add: process_row_def)

lemma process_row_rewriter_error:
  "fcol < length row \<Longrightarrow> extract_string_assigns tmpl (row ! fcol) = Inr assigns \<Longrightarrow>
   map_of assigns ''file_name'' = Some base \<Longrightarrow> fpm base = Some target \<Longrightarrow>
   (case map_of fhm base of Some h \<Rightarrow> (Inr h, w) | None \<Rightarrow> open_handle_pair target w) = (Inr h, w1) \<Longrightarrow>
   mcol < length row \<Longrightarrow> find_msgid_in_file (read_handle h) (row ! mcol) = Inr (buffered, rh) \<Longrightarrow>
   write_updated_entry_to_file
      (h\<lparr>read_handle := rh, write_handle := write_buffered_lines_to_file (write_handle h) buffered\<rparr>)
      (Some row) (Some cm) = Inl e \<Longrightarrow>
     process_row fpm cm tmpl fcol mcol row fhm w = (Some e, AList.update base h fhm, w1)"
  by (simp add: process_row_def)


lemma pull_chunks_end:
  "service (generate_range_name sh rs (rs + n - 1) cs ce) = Inr None
     \<or> service (generate_range_name sh rs (rs + n - 1) cs ce) = Inr (Some []) \<Longrightarrow>
     pull_chunks (Suc fuel) service sh n cs ce fpm cm tmpl rs fhm w =
       Some (None, fhm, w\<lparr>requests := requests w @ [generate_range_name sh rs (rs + n - 1) cs ce]\<rparr>)"
  by (auto simp: Let_def)

lemma pull_abort_frame:
  assumes r: "pull_rows fuel cfg service fpm settings w = Some (Some e, fhm, w')"
  shows "pull_by_locale fuel cfg service fpm settings w = Some (Some e, w')
      \<and> (\<forall>p. (\<forall>q\<in>ran fpm. p \<noteq> q @ ''.tmp'') \<longrightarrow> files w' p = files w p)
      \<and> ((\<forall>q\<in>ran fpm. \<forall>q'\<in>ran fpm. q \<noteq> q' @ ''.tmp'') \<longrightarrow>
           (\<forall>q\<in>ran fpm. files w' q = files w q \<and> files w' (q @ ''.old'') = files w (q @ ''.old'')))
      \<and> (locales cfg loc = Some settings \<longrightarrow>
           pull_locales fuel cfg service ((loc, fpm) # rest) w = Some (Some e, w'))"
proof -
  have p: "pull_by_locale fuel cfg service fpm settings w = Some (Some e, w')"
    using r by (simp add: pull_by_locale_def)
  have f: "\<forall>p. (\<forall>q\<in>ran fpm. p \<noteq> q @ ''.tmp'') \<longrightarrow> files w' p = files w p"
    using pull_rows_frame[OF r] by (simp add: only_tmp_changed_def)
  have o: "(\<forall>q\<in>ran fpm. \<forall>q'\<in>ran fpm. q \<noteq> q' @ ''.tmp'') \<longrightarrow>
         (\<forall>q\<in>ran fpm. files w' q = files w q \<and> files w' (q @ ''.old'') = files w (q @ ''.old''))"
    using f old_not_tmp by blast
  have l: "locales cfg loc = Some settings \<longrightarrow>
         pull_locales fuel cfg service ((loc, fpm) # rest) w = Some (Some e, w')"
    using p by simp
  show ?thesis by (intro conjI p f o l)
qed

text \<open>
  Claim C5, as the program has it. When an exception is raised in \<open>pull_by_locale\<close>
  before its closing loop (the column mapping, a failure of the service, the
  extraction of the file name from the template, an unknown file, the locator's
  \<open>EntryNotFoundError\<close>, the rewriter), the call ends with that exception and nothing
  is promoted: no file is created, changed or removed but the temporary files of the
  catalogs of that locale, so every original of the locale and every \<open>.old\<close> file
  is as before, and the run pulls no further locale. The closing loop runs only when
  the chunk loop has ended without an exception.

  The conjuncts after the first two say where the exceptions come from and that each
  of them ends the chunk loop. A failing column mapping ends the call before the first
  request; otherwise the call is the chunk loop from the first row. In the chunk loop
  a failure of the service ends the loop with that failure, an exception in a chunk
  ends it with that exception, a chunk without exception is followed by the next
  chunk, and the loop ends without exception only when the service returns no row.
  In a chunk, the exception of the first row that raises one, after rows that raise
  none, is the exception of the chunk. In a row, each of these raises: the extraction
  of the file name, a file name that the locale has no catalog for, the opening of the
  catalog, the locator, and the rewriter.
\<close>

theorem pull_error_promotes_nothing:
  "(pull_rows fuel cfg service fpm settings w = Some (Some e, fhm, w') \<longrightarrow>
      pull_by_locale fuel cfg service fpm settings w = Some (Some e, w')
      \<and> (\<forall>p. (\<forall>q\<in>ran fpm. p \<noteq> q @ ''.tmp'') \<longrightarrow> files w' p = files w p)
      \<and> ((\<forall>q\<in>ran fpm. \<forall>q'\<in>ran fpm. q \<noteq> q' @ ''.tmp'') \<longrightarrow>
           (\<forall>q\<in>ran fpm. files w' q = files w q \<and> files w' (q @ ''.old'') = files w (q @ ''.old'')))
      \<and> (locales cfg loc = Some settings \<longrightarrow>
           pull_locales fuel cfg service ((loc, fpm) # rest) w = Some (Some e, w')))
   \<and> (pull_rows fuel cfg service fpm settings w = Some (None, fhm, w') \<longrightarrow>
        pull_by_locale fuel cfg service fpm settings w = Some (promote fpm fhm w'))
   \<and> (get_column_mapping (columns settings) = Inl e \<longrightarrow>
        pull_rows fuel cfg service fpm settings w = Some (Some e, [], w))
   \<and> (get_column_mapping (columns settings) = Inr cm \<and> cm ''_file_name'' = Some k
        \<and> k < length (columns settings) \<and> col_static (columns settings ! k) = Some tmpl \<longrightarrow>
        pull_rows fuel cfg service fpm settings w =
          pull_chunks fuel service (sheet settings) (pull_chunk_size cfg)
            (get_column_string (1 + column_offset settings))
            (get_column_string (1 + column_offset settings + int (length (columns settings)) - 1))
            fpm cm tmpl (1 + row_offset settings + 1) [] w)
   \<and> (service (generate_range_name sh rs (rs + n - 1) cs ce) = Inl e \<longrightarrow>
        pull_chunks (Suc fuel) service sh n cs ce fpm cm tmpl rs fhm w =
          Some (Some e, fhm,
                w\<lparr>requests := requests w @ [generate_range_name sh rs (rs + n - 1) cs ce]\<rparr>))
   \<and> (service (generate_range_name sh rs (rs + n - 1) cs ce) = Inr (Some data) \<and> data \<noteq> []
        \<and> process_chunk fpm fhm data cm tmpl
             (w\<lparr>requests := requests w @ [generate_range_name sh rs (rs + n - 1) cs ce]\<rparr>)
           = (Some e, fhm', w') \<longrightarrow>
        pull_chunks (Suc fuel) service sh n cs ce fpm cm tmpl rs fhm w = Some (Some e, fhm', w'))
   \<and> (service (generate_range_name sh rs (rs + n - 1) cs ce) = Inr (Some data) \<and> data \<noteq> []
        \<and> process_chunk fpm fhm data cm tmpl
             (w\<lparr>requests := requests w @ [generate_range_name sh rs (rs + n - 1) cs ce]\<rparr>)
           = (None, fhm', w') \<longrightarrow>
        pull_chunks (Suc fuel) service sh n cs ce fpm cm tmpl rs fhm w =
          pull_chunks fuel service sh n cs ce fpm cm tmpl (rs + n - 1 + 1) fhm' w')
   \<and> (service (generate_range_name sh rs (rs + n - 1) cs ce) = Inr None
        \<or> service (generate_range_name sh rs (rs + n - 1) cs ce) = Inr (Some []) \<longrightarrow>
        pull_chunks (Suc fuel) service sh n cs ce fpm cm tmpl rs fhm w =
          Some (None, fhm,
                w\<lparr>requests := requests w @ [generate_range_name sh rs (rs + n - 1) cs ce]\<rparr>))
   \<and> (cm ''_file_name'' = Some fcol \<and> cm ''msgid'' = Some mcol
        \<and> process_rows fpm cm tmpl fcol mcol pre fhm w = (None, fhm1, w1)
        \<and> list_ex (\<lambda>cell. cell \<noteq> []) row
        \<and> process_row fpm cm tmpl fcol mcol row fhm1 w1 = (Some e, fhm2, w2) \<longrightarrow>
        process_chunk fpm fhm (pre @ row # post) cm tmpl w = (Some e, fhm2, w2))
   \<and> (fcol < length row \<and> extract_string_assigns tmpl (row ! fcol) = Inl e \<longrightarrow>
        process_row fpm cm tmpl fcol mcol row fhm w = (Some e, fhm, w))
   \<and> (fcol < length row \<and> extract_string_assigns tmpl (row ! fcol) = Inr assigns
        \<and> map_of assigns ''file_name'' = Some base \<and> fpm base = None \<longrightarrow>
        process_row fpm cm tmpl fcol mcol row fhm w = (Some (KeyError base), fhm, w))
   \<and> (fcol < length row \<and> extract_string_assigns tmpl (row ! fcol) = Inr assigns
        \<and> map_of assigns ''file_name'' = Some base \<and> fpm base = Some target
        \<and> map_of fhm base = None \<and> open_handle_pair target w = (Inl e, w1) \<longrightarrow>
        process_row fpm cm tmpl fcol mcol row fhm w = (Some e, fhm, w1))
   \<and> (fcol < length row \<and> extract_string_assigns tmpl (row ! fcol) = Inr assigns
        \<and> map_of assigns ''file_name'' = Some base \<and> fpm base = Some target
        \<and> (case map_of fhm base of Some h \<Rightarrow> (Inr h, w) | None \<Rightarrow> open_handle_pair target w)
            = (Inr h, w1)
        \<and> mcol < length row \<and> find_msgid_in_file (read_handle h) (row ! mcol) = Inl e \<longrightarrow>
        process_row fpm cm tmpl fcol mcol row fhm w = (Some e, AList.update base h fhm, w1))
   \<and> (fcol < length row \<and> extract_string_assigns tmpl (row ! fcol) = Inr assigns
        \<and> map_of assigns ''file_name'' = Some base \<and> fpm base = Some target
        \<and> (case map_of fhm base of Some h \<Rightarrow> (Inr h, w) | None \<Rightarrow> open_handle_pair target w)
            = (Inr h, w1)
        \<and> mcol < length row
        \<and> find_msgid_in_file (read_handle h) (row ! mcol) = Inr (buffered, rh)
        \<and> write_updated_entry_to_file
             (h\<lparr>read_handle := rh,
                write_handle := write_buffered_lines_to_file (write_handle h) buffered\<rparr>)
             (Some row) (Some cm) = Inl e \<longrightarrow>
        process_row fpm cm tmpl fcol mcol row fhm w = (Some e, AList.update base h fhm, w1))"
  apply (intro conjI)
  subgoal by (rule impI, rule pull_abort_frame)
  subgoal by (simp add: pull_by_locale_def)
  subgoal by (rule impI, rule pull_rows_mapping_error)
  subgoal by (intro impI, elim conjE, rule pull_rows_chunks; assumption)
  subgoal by (rule impI, rule pull_chunks_service_error)
  subgoal by (intro impI, elim conjE, rule pull_chunks_chunk_error; assumption)
  subgoal by (intro impI, elim conjE, rule pull_chunks_chunk_done; assumption)
  subgoal by (rule impI, rule pull_chunks_end)
  subgoal by (intro impI, elim conjE, rule process_chunk_row_error; assumption)
  subgoal by (intro impI, elim conjE, rule process_row_extract_error; assumption)
  subgoal by (intro impI, elim conjE, rule process_row_unknown_file; assumption)
  subgoal by (intro impI, elim conjE, rule process_row_open_error; assumption)
  subgoal by (intro impI, elim conjE, rule process_row_locator_error; assumption)
  subgoal by (intro impI, elim conjE, rule process_row_rewriter_error; assumption)
  done


lemma ex_rows:
  "map_option fst (pull_rows 5 pull_example_config pull_example_service
      [''a.po'' \<mapsto> ''/po/pt/LC_MESSAGES/a.po''] (pull_example_settings ''pt'') pull_example_world)
   = Some (Some EntryNotFoundError)"
  by code_simp

lemma source_example_get_mapping:
  "sublist ''{file_name}'' t \<Longrightarrow>
     get_column_mapping (source_example_columns t fs) = Inr (source_example_mapping fs)"
  by (simp add: get_column_mapping_def source_example_columns_def source_example_mapping_def
        numeral_2_eq_2)

lemma source_example_mapping_keys:
  "''_file_name'' \<notin> set fs \<Longrightarrow> ''msgid'' \<notin> set fs \<Longrightarrow>
     source_example_mapping fs ''_file_name'' = Some 1 \<and> source_example_mapping fs ''msgid'' = Some 0"
  by (simp add: source_example_mapping_def foldl_upd_other)

lemma source_example_range:
  "generate_range_name (sheet (source_example_settings t fs))
     (1 + row_offset (source_example_settings t fs) + 1)
     (1 + row_offset (source_example_settings t fs) + 1 + pull_chunk_size (source_example_config t fs) - 1)
     (get_column_string (1 + column_offset (source_example_settings t fs)))
     (get_column_string (1 + column_offset (source_example_settings t fs)
         + int (length (columns (source_example_settings t fs))) - 1))
   = ''pt!A2:C3''"
  unfolding source_example_settings_def source_example_config_def source_example_columns_def
  by code_simp


lemma source_example_config_error:
  "get_column_mapping (columns (source_example_settings ''file_name'' [''msgstr'']))
     = Inl ConfigurationError"
proof -
  have "\<not> sublist ''{file_name}'' ''file_name''" by code_simp
  then show ?thesis
    by (simp add: get_column_mapping_def source_example_settings_def source_example_columns_def)
qed

lemma source_example_success:
  "map_option (\<lambda>(e, w). (e, files w ''/po/pt/LC_MESSAGES/a.po'', files w ''/po/pt/LC_MESSAGES/a.po.old''))
     (source_example_run ''{file_name}'' [''msgstr''] ''/po/pt/LC_MESSAGES/a.po''
        (Inr (Some [[''hi'', ''a.po'', ''Hi!'']])))
   = Some (None, Some ''msgid \"\"\<newline>msgstr \"\"\<newline>\<newline>msgid \"hi\"\<newline>msgstr \"Hi!\"\<newline>'',
           Some small_catalog)"
  by code_simp

lemma source_example_range2:
  "generate_range_name (sheet (source_example_settings t fs))
     (1 + row_offset (source_example_settings t fs) + 1 + pull_chunk_size (source_example_config t fs) - 1 + 1)
     (1 + row_offset (source_example_settings t fs) + 1 + pull_chunk_size (source_example_config t fs) - 1 + 1
        + pull_chunk_size (source_example_config t fs) - 1)
     (get_column_string (1 + column_offset (source_example_settings t fs)))
     (get_column_string (1 + column_offset (source_example_settings t fs)
         + int (length (columns (source_example_settings t fs))) - 1))
   = ''pt!A4:C5''"
  unfolding source_example_settings_def source_example_config_def source_example_columns_def
  by code_simp

text \<open>
  One pull for every source of an exception, each with the catalog
  \<open>/po/pt/LC_MESSAGES/a.po\<close> left as it was and no \<open>.old\<close> file: the locator in the
  run of the example, a configuration without a file-name column, a service that
  fails, a file name that does not fit the template \<open>po/{file_name}\<close>, the unknown
  file \<open>b.po\<close>, a catalog that does not exist, the entry \<open>bye\<close> that the catalog does
  not have, a row without the cell of \<open>msgstr\<close>, and a configuration without a column
  for \<open>msgstr\<close>. The last pull raises nothing and promotes the rewritten catalog.
\<close>

theorem pull_error_promotes_nothing_witness:
  "(\<exists>w'. pull_by_locale 5 pull_example_config pull_example_service
      [''a.po'' \<mapsto> ''/po/pt/LC_MESSAGES/a.po''] (pull_example_settings ''pt'') pull_example_world
        = Some (Some EntryNotFoundError, w')
     \<and> files w' ''/po/pt/LC_MESSAGES/a.po'' = Some small_catalog
     \<and> files w' ''/po/pt/LC_MESSAGES/a.po.old'' = None)
   \<and> (source_example_run ''file_name'' [''msgstr''] ''/po/pt/LC_MESSAGES/a.po''
            (Inr (Some [[''hi'', ''a.po'', ''Hi!'']])) = Some (Some ConfigurationError, pull_example_world))
   \<and> (\<exists>w'. source_example_run ''{file_name}'' [''msgstr''] ''/po/pt/LC_MESSAGES/a.po''
            (Inl ServiceError) = Some (Some ServiceError, w')
        \<and> files w' ''/po/pt/LC_MESSAGES/a.po'' = Some small_catalog
        \<and> files w' ''/po/pt/LC_MESSAGES/a.po.old'' = None)
   \<and> (\<exists>w'. source_example_run ''po/{file_name}'' [''msgstr''] ''/po/pt/LC_MESSAGES/a.po''
            (Inr (Some [[''hi'', ''a.po'', ''Hi!'']])) = Some (Some StopIteration, w')
        \<and> files w' ''/po/pt/LC_MESSAGES/a.po'' = Some small_catalog
        \<and> files w' ''/po/pt/LC_MESSAGES/a.po.old'' = None)
   \<and> (\<exists>w'. source_example_run ''{file_name}'' [''msgstr''] ''/po/pt/LC_MESSAGES/a.po''
            (Inr (Some [[''hi'', ''b.po'', ''Hi!'']])) = Some (Some (KeyError ''b.po''), w')
        \<and> files w' ''/po/pt/LC_MESSAGES/a.po'' = Some small_catalog
        \<and> files w' ''/po/pt/LC_MESSAGES/a.po.old'' = None)
   \<and> (\<exists>w'. source_example_run ''{file_name}'' [''msgstr''] ''/po/pt/LC_MESSAGES/missing.po''
            (Inr (Some [[''hi'', ''a.po'', ''Hi!'']])) = Some (Some FileNotFoundError, w')
        \<and> files w' ''/po/pt/LC_MESSAGES/a.po'' = Some small_catalog
        \<and> files w' ''/po/pt/LC_MESSAGES/a.po.old'' = None)
   \<and> (\<exists>w'. source_example_run ''{file_name}'' [''msgstr''] ''/po/pt/LC_MESSAGES/a.po''
            (Inr (Some [[''bye'', ''a.po'', ''Tchau'']])) = Some (Some EntryNotFoundError, w')
        \<and> files w' ''/po/pt/LC_MESSAGES/a.po'' = Some small_catalog
        \<and> files w' ''/po/pt/LC_MESSAGES/a.po.old'' = None)
   \<and> (\<exists>w'. source_example_run ''{file_name}'' [''msgstr''] ''/po/pt/LC_MESSAGES/a.po''
            (Inr (Some [[''hi'', ''a.po'']])) = Some (Some IndexError, w')
        \<and> files w' ''/po/pt/LC_MESSAGES/a.po'' = Some small_catalog
        \<and> files w' ''/po/pt/LC_MESSAGES/a.po.old'' = None)
   \<and> (\<exists>w'. source_example_run ''{file_name}'' [] ''/po/pt/LC_MESSAGES/a.po''
            (Inr (Some [[''hi'', ''a.po'', ''Hi!'']])) = Some (Some (KeyError ''msgstr''), w')
        \<and> files w' ''/po/pt/LC_MESSAGES/a.po'' = Some small_catalog
        \<and> files w' ''/po/pt/LC_MESSAGES/a.po.old'' = None)
   \<and> (\<exists>fhm' w'. pull_rows 5 (source_example_config ''{file_name}'' [''msgstr''])
            (source_example_service (Inr (Some [[''hi'', ''a.po'', ''Hi!'']])))
            [''a.po'' \<mapsto> ''/po/pt/LC_MESSAGES/a.po'']
            (source_example_settings ''{file_name}'' [''msgstr'']) pull_example_world
              = Some (None, fhm', w')
        \<and> source_example_run ''{file_name}'' [''msgstr''] ''/po/pt/LC_MESSAGES/a.po''
            (Inr (Some [[''hi'', ''a.po'', ''Hi!'']]))
              = Some (promote [''a.po'' \<mapsto> ''/po/pt/LC_MESSAGES/a.po''] fhm' w'))
   \<and> map_option (\<lambda>(e, w). (e, files w ''/po/pt/LC_MESSAGES/a.po'', files w ''/po/pt/LC_MESSAGES/a.po.old''))
        (source_example_run ''{file_name}'' [''msgstr''] ''/po/pt/LC_MESSAGES/a.po''
           (Inr (Some [[''hi'', ''a.po'', ''Hi!'']])))
      = Some (None, Some ''msgid \"\"\<newline>msgstr \"\"\<newline>\<newline>msgid \"hi\"\<newline>msgstr \"Hi!\"\<newline>'',
              Some small_catalog)"
proof -
  note c2 = conjunct2
  note Pa = pull_error_promotes_nothing[THEN c2, THEN c2, THEN c2, THEN c2, THEN c2, THEN c2, THEN c2, THEN c2, THEN c2, THEN conjunct1, THEN mp]
  have s4: "Suc 4 = (5::nat)" by simp
  let ?P = "''/po/pt/LC_MESSAGES/a.po''"
  let ?W = pull_example_world
  let ?W1 = "pull_example_world\<lparr>requests := requests pull_example_world @ [''pt!A2:C3'']\<rparr>"
  have row_chain:
    "pull_by_locale 5 (source_example_config t fs) (source_example_service (Inr (Some [row])))
        [''a.po'' \<mapsto> target] (source_example_settings t fs) ?W = Some (Some e, w2)
     \<and> files w2 ?P = files ?W ?P \<and> files w2 (?P @ ''.old'') = files ?W (?P @ ''.old'')"
    if t: "sublist ''{file_name}'' t" and fs: "''_file_name'' \<notin> set fs" "''msgid'' \<notin> set fs"
      and nb: "list_ex (\<lambda>cell. cell \<noteq> []) row"
      and r: "process_row [''a.po'' \<mapsto> target] (source_example_mapping fs) t 1 0 row [] ?W1
               = (Some e, fhm2, w2)"
      and np: "?P \<noteq> target @ ''.tmp''" "?P @ ''.old'' \<noteq> target @ ''.tmp''"
    for t fs row target e fhm2 w2
  proof -
    let ?S = "source_example_settings t fs"
    let ?cfg = "source_example_config t fs"
    let ?svc = "source_example_service (Inr (Some [row]))"
    let ?fpm = "[''a.po'' \<mapsto> target]"
    let ?CM = "source_example_mapping fs"
    have m: "get_column_mapping (columns ?S) = Inr ?CM"
      using source_example_get_mapping[OF t] by (simp add: source_example_settings_def)
    have keys: "?CM ''_file_name'' = Some 1" "?CM ''msgid'' = Some 0"
      using source_example_mapping_keys[OF fs] by simp_all
    have k: "1 < length (columns ?S)" "col_static (columns ?S ! 1) = Some t"
      by (simp_all add: source_example_settings_def source_example_columns_def)
    have p1: "pull_rows (Suc 4) ?cfg ?svc ?fpm ?S ?W =
          pull_chunks (Suc 4) ?svc (sheet ?S) (pull_chunk_size ?cfg)
            (get_column_string (1 + column_offset ?S))
            (get_column_string (1 + column_offset ?S + int (length (columns ?S)) - 1))
            ?fpm ?CM t (1 + row_offset ?S + 1) [] ?W"
      by (rule pull_error_promotes_nothing[where k = 1, THEN c2, THEN c2, THEN c2, THEN conjunct1, THEN mp])
         (use m keys k in simp)
    have ch: "process_chunk ?fpm [] ([] @ row # []) ?CM t ?W1 = (Some e, fhm2, w2)"
      by (rule pull_error_promotes_nothing[where ?fhm1.0 = "[]" and ?w1.0 = ?W1,
               THEN c2, THEN c2, THEN c2, THEN c2, THEN c2, THEN c2, THEN c2, THEN c2,
               THEN conjunct1, THEN mp])
         (use keys nb r in simp)
    have p3: "pull_chunks (Suc 4) ?svc (sheet ?S) (pull_chunk_size ?cfg)
            (get_column_string (1 + column_offset ?S))
            (get_column_string (1 + column_offset ?S + int (length (columns ?S)) - 1))
            ?fpm ?CM t (1 + row_offset ?S + 1) [] ?W = Some (Some e, fhm2, w2)"
      by (rule pull_error_promotes_nothing[where data = "[row]",
               THEN c2, THEN c2, THEN c2, THEN c2, THEN c2, THEN conjunct1, THEN mp])
         (simp only: source_example_range, use ch in \<open>simp add: source_example_service_def\<close>)
    have rows: "pull_rows (Suc 4) ?cfg ?svc ?fpm ?S ?W = Some (Some e, fhm2, w2)"
      using p1 p3 by (rule trans)
    note a = pull_error_promotes_nothing[where loc = "[]" and rest = "[]", THEN conjunct1, THEN mp, OF rows]
    have ran: "ran ?fpm = {target}" by simp
    have s4: "Suc 4 = (5::nat)" by simp
    have 1: "pull_by_locale 5 ?cfg ?svc ?fpm ?S ?W = Some (Some e, w2)"
      using a[THEN conjunct1] unfolding s4 .
    have 2: "files w2 ?P = files ?W ?P" "files w2 (?P @ ''.old'') = files ?W (?P @ ''.old'')"
      using a[THEN conjunct2, THEN conjunct1] np unfolding ran by simp_all
    show ?thesis using 1 2 by (intro conjI)
  qed
  have orig: "files ?W ?P = Some small_catalog" "files ?W (?P @ ''.old'') = None"
    by (simp_all add: pull_example_world_def)
  have orig1: "files ?W1 ?P = Some small_catalog" "files ?W1 (?P @ ''.old'') = None"
    by (simp_all add: pull_example_world_def)
  have tm: "sublist ''{file_name}'' ''{file_name}''" by simp
  have fs1: "''_file_name'' \<notin> set [''msgstr'']" "''msgid'' \<notin> set [''msgstr'']" by simp_all
  have fs0: "''_file_name'' \<notin> set ([] :: string list)" "''msgid'' \<notin> set ([] :: string list)"
    by simp_all

  txt \<open>The locator, in the run over two locales.\<close>
  have w0: "\<exists>w'. pull_by_locale 5 pull_example_config pull_example_service
      [''a.po'' \<mapsto> ?P] (pull_example_settings ''pt'') ?W = Some (Some EntryNotFoundError, w')
     \<and> files w' ?P = Some small_catalog \<and> files w' ''/po/pt/LC_MESSAGES/a.po.old'' = None"
  proof -
    obtain fhm w' where r: "pull_rows 5 pull_example_config pull_example_service
        [''a.po'' \<mapsto> ?P] (pull_example_settings ''pt'') ?W = Some (Some EntryNotFoundError, fhm, w')"
      using ex_rows by (auto simp: map_option_case split: option.splits)
    note a = pull_error_promotes_nothing[where loc = "[]" and rest = "[]", THEN conjunct1, THEN mp, OF r]
    have ran: "ran [''a.po'' \<mapsto> ?P] = {?P}" by simp
    have "files w' ?P = files ?W ?P" "files w' (?P @ ''.old'') = files ?W (?P @ ''.old'')"
      using a[THEN conjunct2, THEN conjunct1] unfolding ran by simp_all
    then show ?thesis using a[THEN conjunct1] orig by auto
  qed

  txt \<open>The column mapping.\<close>
  have rows_cfg: "pull_rows 5 (source_example_config ''file_name'' [''msgstr''])
        (source_example_service (Inr (Some [[''hi'', ''a.po'', ''Hi!'']]))) [''a.po'' \<mapsto> ?P]
        (source_example_settings ''file_name'' [''msgstr'']) ?W = Some (Some ConfigurationError, [], ?W)"
    by (rule pull_error_promotes_nothing[THEN c2, THEN c2, THEN conjunct1, THEN mp]) (rule source_example_config_error)
  have wcfg: "source_example_run ''file_name'' [''msgstr''] ?P (Inr (Some [[''hi'', ''a.po'', ''Hi!'']]))
      = Some (Some ConfigurationError, ?W)"
    unfolding source_example_run_def
    by (rule pull_error_promotes_nothing[where loc = "[]" and rest = "[]", THEN conjunct1, THEN mp,
          OF rows_cfg, THEN conjunct1])

  txt \<open>The service.\<close>
  have wsvc: "\<exists>w'. source_example_run ''{file_name}'' [''msgstr''] ?P (Inl ServiceError)
        = Some (Some ServiceError, w')
      \<and> files w' ?P = Some small_catalog \<and> files w' ''/po/pt/LC_MESSAGES/a.po.old'' = None"
  proof -
    let ?S = "source_example_settings ''{file_name}'' [''msgstr'']"
    let ?cfg = "source_example_config ''{file_name}'' [''msgstr'']"
    let ?svc = "source_example_service (Inl ServiceError)"
    let ?fpm = "[''a.po'' \<mapsto> ?P]"
    let ?CM = "source_example_mapping [''msgstr'']"
    have m: "get_column_mapping (columns ?S) = Inr ?CM"
      using source_example_get_mapping[OF tm] by (simp add: source_example_settings_def)
    have keys: "?CM ''_file_name'' = Some 1"
      using source_example_mapping_keys[OF fs1] by simp
    have k: "1 < length (columns ?S)" "col_static (columns ?S ! 1) = Some ''{file_name}''"
      by (simp_all add: source_example_settings_def source_example_columns_def)
    have p1: "pull_rows (Suc 4) ?cfg ?svc ?fpm ?S ?W =
          pull_chunks (Suc 4) ?svc (sheet ?S) (pull_chunk_size ?cfg)
            (get_column_string (1 + column_offset ?S))
            (get_column_string (1 + column_offset ?S + int (length (columns ?S)) - 1))
            ?fpm ?CM ''{file_name}'' (1 + row_offset ?S + 1) [] ?W"
      by (rule pull_error_promotes_nothing[where k = 1, THEN c2, THEN c2, THEN c2, THEN conjunct1, THEN mp]) (use m keys k in simp)
    have p2: "pull_chunks (Suc 4) ?svc (sheet ?S) (pull_chunk_size ?cfg)
            (get_column_string (1 + column_offset ?S))
            (get_column_string (1 + column_offset ?S + int (length (columns ?S)) - 1))
            ?fpm ?CM ''{file_name}'' (1 + row_offset ?S + 1) [] ?W = Some (Some ServiceError, [], ?W1)"
    proof -
      have sv: "?svc (generate_range_name (sheet ?S) (1 + row_offset ?S + 1)
                  (1 + row_offset ?S + 1 + pull_chunk_size ?cfg - 1)
                  (get_column_string (1 + column_offset ?S))
                  (get_column_string (1 + column_offset ?S + int (length (columns ?S)) - 1)))
                = Inl ServiceError"
        by (simp only: source_example_range) (simp add: source_example_service_def)
      note p = pull_error_promotes_nothing[where service = "source_example_service (Inl ServiceError)",
                 THEN c2, THEN c2, THEN c2, THEN c2, THEN conjunct1, THEN mp, OF sv]
      show ?thesis by (rule p[unfolded source_example_range])
    qed
    have rows: "pull_rows (Suc 4) ?cfg ?svc ?fpm ?S ?W = Some (Some ServiceError, [], ?W1)"
      using p1 p2 by (rule trans)
    have "pull_by_locale 5 ?cfg ?svc ?fpm ?S ?W = Some (Some ServiceError, ?W1)"
      using pull_error_promotes_nothing[where loc = "[]" and rest = "[]", THEN conjunct1, THEN mp,
          OF rows, THEN conjunct1] unfolding s4 .
    then show ?thesis using orig1 by (simp add: source_example_run_def)
  qed

  txt \<open>The extraction of the file name.\<close>
  have ea: "extract_string_assigns ''po/{file_name}'' ''a.po'' = Inl StopIteration"
    by code_simp
  have ra: "process_row [''a.po'' \<mapsto> ?P] (source_example_mapping [''msgstr'']) ''po/{file_name}'' 1 0
              [''hi'', ''a.po'', ''Hi!''] [] ?W1 = (Some StopIteration, [], ?W1)"
    by (rule Pa) (use ea in simp)
  have ta: "sublist ''{file_name}'' ''po/{file_name}''" by code_simp
  have wa: "\<exists>w'. source_example_run ''po/{file_name}'' [''msgstr''] ?P
        (Inr (Some [[''hi'', ''a.po'', ''Hi!'']])) = Some (Some StopIteration, w')
      \<and> files w' ?P = Some small_catalog \<and> files w' ''/po/pt/LC_MESSAGES/a.po.old'' = None"
    using row_chain[OF ta fs1 _ ra] orig by (simp add: source_example_run_def)

  txt \<open>A file name that no catalog has.\<close>
  have eb: "extract_string_assigns ''{file_name}'' ''b.po'' = Inr [(''file_name'', ''b.po'')]"
    by code_simp
  have rb: "process_row [''a.po'' \<mapsto> ?P] (source_example_mapping [''msgstr'']) ''{file_name}'' 1 0
              [''hi'', ''b.po'', ''Hi!''] [] ?W1 = (Some (KeyError ''b.po''), [], ?W1)"
    by (rule pull_error_promotes_nothing[where assigns = "[(''file_name'', ''b.po'')]" and base = "''b.po''", THEN c2, THEN c2, THEN c2, THEN c2, THEN c2, THEN c2, THEN c2, THEN c2, THEN c2, THEN c2, THEN conjunct1, THEN mp])
       (use eb in simp)
  have wb: "\<exists>w'. source_example_run ''{file_name}'' [''msgstr''] ?P
        (Inr (Some [[''hi'', ''b.po'', ''Hi!'']])) = Some (Some (KeyError ''b.po''), w')
      \<and> files w' ?P = Some small_catalog \<and> files w' ''/po/pt/LC_MESSAGES/a.po.old'' = None"
    using row_chain[OF tm fs1 _ rb] orig by (simp add: source_example_run_def)

  txt \<open>A catalog that cannot be opened.\<close>
  have ec: "extract_string_assigns ''{file_name}'' ''a.po'' = Inr [(''file_name'', ''a.po'')]"
    by code_simp
  have oc: "open_handle_pair ''/po/pt/LC_MESSAGES/missing.po'' ?W1 = (Inl FileNotFoundError, ?W1)"
    by (simp add: open_handle_pair_def pull_example_world_def)
  have rc: "process_row [''a.po'' \<mapsto> ''/po/pt/LC_MESSAGES/missing.po'']
              (source_example_mapping [''msgstr'']) ''{file_name}'' 1 0
              [''hi'', ''a.po'', ''Hi!''] [] ?W1 = (Some FileNotFoundError, [], ?W1)"
    by (rule pull_error_promotes_nothing[where assigns = "[(''file_name'', ''a.po'')]" and base = "''a.po''" and target = "''/po/pt/LC_MESSAGES/missing.po''", THEN c2, THEN c2, THEN c2, THEN c2, THEN c2, THEN c2, THEN c2, THEN c2, THEN c2, THEN c2, THEN c2, THEN conjunct1, THEN mp])
       (use ec oc in simp)
  have wc: "\<exists>w'. source_example_run ''{file_name}'' [''msgstr''] ''/po/pt/LC_MESSAGES/missing.po''
        (Inr (Some [[''hi'', ''a.po'', ''Hi!'']])) = Some (Some FileNotFoundError, w')
      \<and> files w' ?P = Some small_catalog \<and> files w' ''/po/pt/LC_MESSAGES/a.po.old'' = None"
    using row_chain[OF tm fs1 _ rc] orig by (simp add: source_example_run_def)

  txt \<open>The locator.\<close>
  have "case open_handle_pair ?P ?W1 of
          (Inr h, w1) \<Rightarrow> find_msgid_in_file (read_handle h) ''bye'' = Inl EntryNotFoundError
        | (Inl e, w1) \<Rightarrow> False"
    by code_simp
  then obtain hd wd where od: "open_handle_pair ?P ?W1 = (Inr hd, wd)"
    and fd: "find_msgid_in_file (read_handle hd) ''bye'' = Inl EntryNotFoundError"
    by (auto split: prod.splits sum.splits)
  have row_d: "process_row [''a.po'' \<mapsto> ?P] (source_example_mapping [''msgstr'']) ''{file_name}'' 1 0
              [''bye'', ''a.po'', ''Tchau''] [] ?W1
            = (Some EntryNotFoundError, AList.update ''a.po'' hd [], wd)"
    by (rule pull_error_promotes_nothing[where assigns = "[(''file_name'', ''a.po'')]" and base = "''a.po''" and target = "''/po/pt/LC_MESSAGES/a.po''" and h = hd, THEN c2, THEN c2, THEN c2, THEN c2, THEN c2, THEN c2, THEN c2, THEN c2, THEN c2, THEN c2, THEN c2, THEN c2, THEN conjunct1, THEN mp])
       (use ec od fd in simp)
  have run_d: "\<exists>w'. source_example_run ''{file_name}'' [''msgstr''] ?P
        (Inr (Some [[''bye'', ''a.po'', ''Tchau'']])) = Some (Some EntryNotFoundError, w')
      \<and> files w' ?P = Some small_catalog \<and> files w' ''/po/pt/LC_MESSAGES/a.po.old'' = None"
    using row_chain[OF tm fs1 _ row_d] orig by (simp add: source_example_run_def)

  txt \<open>The rewriter: a row that is too short, and a field without a column.\<close>
  have "case open_handle_pair ?P ?W1 of
          (Inr h, w1) \<Rightarrow>
            (case find_msgid_in_file (read_handle h) ''hi'' of
               Inr (buffered, rh) \<Rightarrow>
                 write_updated_entry_to_file
                   (h\<lparr>read_handle := rh,
                      write_handle := write_buffered_lines_to_file (write_handle h) buffered\<rparr>)
                   (Some [''hi'', ''a.po'']) (Some (source_example_mapping [''msgstr''])) = Inl IndexError
             | Inl e \<Rightarrow> False)
        | (Inl e, w1) \<Rightarrow> False"
    by code_simp
  then obtain he we be re where oe: "open_handle_pair ?P ?W1 = (Inr he, we)"
    and fe: "find_msgid_in_file (read_handle he) ''hi'' = Inr (be, re)"
    and ue: "write_updated_entry_to_file
               (he\<lparr>read_handle := re,
                   write_handle := write_buffered_lines_to_file (write_handle he) be\<rparr>)
               (Some [''hi'', ''a.po'']) (Some (source_example_mapping [''msgstr''])) = Inl IndexError"
    by (auto split: prod.splits sum.splits)
  have row_e: "process_row [''a.po'' \<mapsto> ?P] (source_example_mapping [''msgstr'']) ''{file_name}'' 1 0
              [''hi'', ''a.po''] [] ?W1
            = (Some IndexError, AList.update ''a.po'' he [], we)"
    by (rule pull_error_promotes_nothing[where assigns = "[(''file_name'', ''a.po'')]" and base = "''a.po''" and target = "''/po/pt/LC_MESSAGES/a.po''" and h = he and buffered = be and rh = re, THEN c2, THEN c2, THEN c2, THEN c2, THEN c2, THEN c2, THEN c2, THEN c2, THEN c2, THEN c2, THEN c2, THEN c2, THEN c2, THEN mp])
       (use ec oe fe ue in simp)
  have run_e: "\<exists>w'. source_example_run ''{file_name}'' [''msgstr''] ?P
        (Inr (Some [[''hi'', ''a.po'']])) = Some (Some IndexError, w')
      \<and> files w' ?P = Some small_catalog \<and> files w' ''/po/pt/LC_MESSAGES/a.po.old'' = None"
    using row_chain[OF tm fs1 _ row_e] orig by (simp add: source_example_run_def)
  have "case open_handle_pair ?P ?W1 of
          (Inr h, w1) \<Rightarrow>
            (case find_msgid_in_file (read_handle h) ''hi'' of
               Inr (buffered, rh) \<Rightarrow>
                 write_updated_entry_to_file
                   (h\<lparr>read_handle := rh,
                      write_handle := write_buffered_lines_to_file (write_handle h) buffered\<rparr>)
                   (Some [''hi'', ''a.po'', ''Hi!'']) (Some (source_example_mapping []))
                   = Inl (KeyError ''msgstr'')
             | Inl e \<Rightarrow> False)
        | (Inl e, w1) \<Rightarrow> False"
    by code_simp
  then obtain hk wk bk rk where ok: "open_handle_pair ?P ?W1 = (Inr hk, wk)"
    and fk: "find_msgid_in_file (read_handle hk) ''hi'' = Inr (bk, rk)"
    and uk: "write_updated_entry_to_file
               (hk\<lparr>read_handle := rk,
                   write_handle := write_buffered_lines_to_file (write_handle hk) bk\<rparr>)
               (Some [''hi'', ''a.po'', ''Hi!'']) (Some (source_example_mapping []))
               = Inl (KeyError ''msgstr'')"
    by (auto split: prod.splits sum.splits)
  have row_k: "process_row [''a.po'' \<mapsto> ?P] (source_example_mapping []) ''{file_name}'' 1 0
              [''hi'', ''a.po'', ''Hi!''] [] ?W1
            = (Some (KeyError ''msgstr''), AList.update ''a.po'' hk [], wk)"
    by (rule pull_error_promotes_nothing[where assigns = "[(''file_name'', ''a.po'')]" and base = "''a.po''" and target = "''/po/pt/LC_MESSAGES/a.po''" and h = hk and buffered = bk and rh = rk, THEN c2, THEN c2, THEN c2, THEN c2, THEN c2, THEN c2, THEN c2, THEN c2, THEN c2, THEN c2, THEN c2, THEN c2, THEN c2, THEN mp])
       (use ec ok fk uk in simp)
  have run_k: "\<exists>w'. source_example_run ''{file_name}'' [] ?P
        (Inr (Some [[''hi'', ''a.po'', ''Hi!'']])) = Some (Some (KeyError ''msgstr''), w')
      \<and> files w' ?P = Some small_catalog \<and> files w' ''/po/pt/LC_MESSAGES/a.po.old'' = None"
    using row_chain[OF tm fs0 _ row_k] orig by (simp add: source_example_run_def)

  txt \<open>A pull without an exception.\<close>
  have wok: "\<exists>fhm' w'. pull_rows 5 (source_example_config ''{file_name}'' [''msgstr''])
            (source_example_service (Inr (Some [[''hi'', ''a.po'', ''Hi!'']])))
            [''a.po'' \<mapsto> ?P] (source_example_settings ''{file_name}'' [''msgstr'']) ?W
              = Some (None, fhm', w')
        \<and> source_example_run ''{file_name}'' [''msgstr''] ?P (Inr (Some [[''hi'', ''a.po'', ''Hi!'']]))
              = Some (promote [''a.po'' \<mapsto> ?P] fhm' w')"
  proof -
    let ?S = "source_example_settings ''{file_name}'' [''msgstr'']"
    let ?cfg = "source_example_config ''{file_name}'' [''msgstr'']"
    let ?svc = "source_example_service (Inr (Some [[''hi'', ''a.po'', ''Hi!'']]))"
    let ?fpm = "[''a.po'' \<mapsto> ?P]"
    let ?CM = "source_example_mapping [''msgstr'']"
    let ?CS = "get_column_string (1 + column_offset ?S)"
    let ?CE = "get_column_string (1 + column_offset ?S + int (length (columns ?S)) - 1)"
    have m: "get_column_mapping (columns ?S) = Inr ?CM"
      using source_example_get_mapping[OF tm] by (simp add: source_example_settings_def)
    have keys: "?CM ''_file_name'' = Some 1"
      using source_example_mapping_keys[OF fs1] by simp
    have k: "1 < length (columns ?S)" "col_static (columns ?S ! 1) = Some ''{file_name}''"
      by (simp_all add: source_example_settings_def source_example_columns_def)
    have p1: "pull_rows (Suc (Suc 3)) ?cfg ?svc ?fpm ?S ?W =
          pull_chunks (Suc (Suc 3)) ?svc (sheet ?S) (pull_chunk_size ?cfg) ?CS ?CE
            ?fpm ?CM ''{file_name}'' (1 + row_offset ?S + 1) [] ?W"
      by (rule pull_error_promotes_nothing[where k = 1, THEN c2, THEN c2, THEN c2, THEN conjunct1, THEN mp]) (use m keys k in simp)
    have "fst (process_chunk ?fpm [] [[''hi'', ''a.po'', ''Hi!'']] ?CM ''{file_name}'' ?W1) = None"
      by code_simp
    then obtain fhm' w' where
      pc: "process_chunk ?fpm [] [[''hi'', ''a.po'', ''Hi!'']] ?CM ''{file_name}'' ?W1 = (None, fhm', w')"
      by (cases "process_chunk ?fpm [] [[''hi'', ''a.po'', ''Hi!'']] ?CM ''{file_name}'' ?W1") auto
    have p3: "pull_chunks (Suc (Suc 3)) ?svc (sheet ?S) (pull_chunk_size ?cfg) ?CS ?CE
            ?fpm ?CM ''{file_name}'' (1 + row_offset ?S + 1) [] ?W =
          pull_chunks (Suc 3) ?svc (sheet ?S) (pull_chunk_size ?cfg) ?CS ?CE
            ?fpm ?CM ''{file_name}'' (1 + row_offset ?S + 1 + pull_chunk_size ?cfg - 1 + 1) fhm' w'"
      by (rule pull_error_promotes_nothing[where data = "[[''hi'', ''a.po'', ''Hi!'']]", THEN c2, THEN c2, THEN c2, THEN c2, THEN c2, THEN c2, THEN conjunct1, THEN mp])
         (simp only: source_example_range, use pc in \<open>simp add: source_example_service_def\<close>)
    have p4: "pull_chunks (Suc 3) ?svc (sheet ?S) (pull_chunk_size ?cfg) ?CS ?CE
            ?fpm ?CM ''{file_name}'' (1 + row_offset ?S + 1 + pull_chunk_size ?cfg - 1 + 1) fhm' w' =
          Some (None, fhm', w'\<lparr>requests := requests w' @ [''pt!A4:C5'']\<rparr>)"
    proof -
      have sv: "?svc (generate_range_name (sheet ?S)
                  (1 + row_offset ?S + 1 + pull_chunk_size ?cfg - 1 + 1)
                  (1 + row_offset ?S + 1 + pull_chunk_size ?cfg - 1 + 1 + pull_chunk_size ?cfg - 1)
                  ?CS ?CE) = Inr None
             \<or> ?svc (generate_range_name (sheet ?S)
                  (1 + row_offset ?S + 1 + pull_chunk_size ?cfg - 1 + 1)
                  (1 + row_offset ?S + 1 + pull_chunk_size ?cfg - 1 + 1 + pull_chunk_size ?cfg - 1)
                  ?CS ?CE) = Inr (Some [])"
        by (simp only: source_example_range2) (simp add: source_example_service_def)
      note p = pull_error_promotes_nothing[where service = "source_example_service (Inr (Some [[''hi'', ''a.po'', ''Hi!'']]))", THEN c2, THEN c2, THEN c2, THEN c2, THEN c2, THEN c2, THEN c2, THEN conjunct1, THEN mp]
      show ?thesis by (rule p[OF sv, unfolded source_example_range2])
    qed
    have rows: "pull_rows (Suc (Suc 3)) ?cfg ?svc ?fpm ?S ?W
        = Some (None, fhm', w'\<lparr>requests := requests w' @ [''pt!A4:C5'']\<rparr>)"
      using p1 p3 p4 by simp
    have s5: "Suc (Suc 3) = (5::nat)" by simp
    note b = pull_error_promotes_nothing[THEN c2, THEN conjunct1, THEN mp, OF rows]
    show ?thesis
      using rows[unfolded s5] b[unfolded s5] unfolding source_example_run_def by blast
  qed

  show ?thesis
    by (intro conjI w0 wcfg wsvc wa wb wc run_d run_e run_k wok source_example_success)
qed

text \<open>
  The claim as stated leaves every original unchanged when a pull run raises. The run
  promotes locale by locale: in the run over \<open>en\<close> and \<open>pt\<close>, the locator raises
  \<open>EntryNotFoundError\<close> for \<open>pt\<close> after the catalog of \<open>en\<close> has been replaced by
  its rewritten version and its former content moved to \<open>.old\<close>.
\<close>

theorem pull_run_promotes_earlier_locale_counterexample:
  "map_option fst pull_example_run = Some (Some EntryNotFoundError)
   \<and> files pull_example_world ''/po/en/LC_MESSAGES/a.po''
       = Some ''msgid \"\"\<newline>msgstr \"\"\<newline>\<newline>msgid \"hi\"\<newline>msgstr \"\"\<newline>''
   \<and> map_option (\<lambda>(e, w). files w ''/po/en/LC_MESSAGES/a.po'') pull_example_run
       = Some (Some ''msgid \"\"\<newline>msgstr \"\"\<newline>\<newline>msgid \"hi\"\<newline>msgstr \"Hi!\"\<newline>'')
   \<and> files pull_example_world ''/po/en/LC_MESSAGES/a.po.old'' = None
   \<and> map_option (\<lambda>(e, w). files w ''/po/en/LC_MESSAGES/a.po.old'') pull_example_run
       = Some (Some ''msgid \"\"\<newline>msgstr \"\"\<newline>\<newline>msgid \"hi\"\<newline>msgstr \"\"\<newline>'')"
  by code_simp

end
